theory Spec2Isabelle
  imports Main
begin

section \<open>JavaScript values used by App.tsx\<close>

text \<open>
  A JavaScript number is an IEEE 754 binary64 value. The component makes numbers only by
  \<open>parseInt\<close>, by a product with 60 and by subtracting 1, so every number it holds is
  an integer, an infinity or NaN; \<open>-0\<close> is not told apart from \<open>0\<close>, which no
  comparison or operation of the component does either.
\<close>

datatype number = NaN | Num int | PosInf | NegInf

text \<open>
  Rounding of an exact integer to binary64, to nearest with ties to the even
  significand. Below \<open>2 ^ 53\<close> every integer is a value of the format. Above, the
  significand has 53 bits: with \<open>bitLength a\<close> the number of binary digits of the
  magnitude, the unit in the last place is \<open>2 ^ (bitLength a - 53)\<close>. A magnitude that
  rounds to \<open>2 ^ 1024\<close> or more becomes an infinity.
\<close>

fun bitLength :: "nat \<Rightarrow> nat" where
  "bitLength n = (if n = 0 then 0 else Suc (bitLength (n div 2)))"

declare bitLength.simps [simp del]

definition exactLimit :: nat where
  "exactLimit = 2 ^ 53"

definition overflowLimit :: nat where
  "overflowLimit = 2 ^ 1024"

definition round64 :: "int \<Rightarrow> number" where
  "round64 n =
     (let a = nat \<bar>n\<bar> in
      if a < exactLimit then Num n
      else
        let u = 2 ^ (bitLength a - 53);
            q = a div u;
            r = a mod u;
            m = (if 2 * r < u \<or> (2 * r = u \<and> even q) then q else q + 1) * u
        in if overflowLimit \<le> m then (if n < 0 then NegInf else PosInf)
           else Num (if n < 0 then - int m else int m))"

text \<open>\<open>a * b\<close>: the exact product, rounded; an infinity times zero is NaN.\<close>

fun num_mul :: "number \<Rightarrow> number \<Rightarrow> number" where
  "num_mul (Num a) (Num b) = round64 (a * b)"
| "num_mul NaN _ = NaN"
| "num_mul _ NaN = NaN"
| "num_mul PosInf (Num b) = (if b = 0 then NaN else if 0 < b then PosInf else NegInf)"
| "num_mul NegInf (Num b) = (if b = 0 then NaN else if 0 < b then NegInf else PosInf)"
| "num_mul (Num a) PosInf = (if a = 0 then NaN else if 0 < a then PosInf else NegInf)"
| "num_mul (Num a) NegInf = (if a = 0 then NaN else if 0 < a then NegInf else PosInf)"
| "num_mul PosInf PosInf = PosInf"
| "num_mul PosInf NegInf = NegInf"
| "num_mul NegInf PosInf = NegInf"
| "num_mul NegInf NegInf = PosInf"

text \<open>\<open>a - b\<close>: the exact difference, rounded; an infinity minus itself is NaN.\<close>

fun num_sub :: "number \<Rightarrow> number \<Rightarrow> number" where
  "num_sub (Num a) (Num b) = round64 (a - b)"
| "num_sub NaN _ = NaN"
| "num_sub _ NaN = NaN"
| "num_sub PosInf PosInf = NaN"
| "num_sub NegInf NegInf = NaN"
| "num_sub PosInf _ = PosInf"
| "num_sub NegInf _ = NegInf"
| "num_sub (Num a) PosInf = NegInf"
| "num_sub (Num a) NegInf = PosInf"

text \<open>\<open>a > b\<close> on numbers: false as soon as one side is NaN.\<close>

fun num_gt :: "number \<Rightarrow> number \<Rightarrow> bool" where
  "num_gt (Num a) (Num b) = (b < a)"
| "num_gt NaN _ = False"
| "num_gt _ NaN = False"
| "num_gt PosInf PosInf = False"
| "num_gt PosInf _ = True"
| "num_gt _ PosInf = False"
| "num_gt NegInf _ = False"
| "num_gt (Num a) NegInf = True"

text \<open>
  \<open>parseInt(text)\<close> without a radix: leading white space is skipped, one sign is read,
  a \<open>0x\<close>/\<open>0X\<close> prefix selects radix 16, then the longest run of digits of the radix is
  read. No digit at all gives NaN; otherwise the result is the integer read, rounded to
  binary64. (Past the twentieth significant digit ECMAScript leaves the digits to the
  implementation; the value rounded here is the exact one.)
\<close>

definition isWhiteSpace :: "char \<Rightarrow> bool" where
  "isWhiteSpace c = (of_char c \<in> {9, 10, 11, 12, 13, 32, 160 :: nat})"

definition digitValue :: "char \<Rightarrow> nat option" where
  "digitValue c =
     (let n = (of_char c :: nat) in
      if 48 \<le> n \<and> n \<le> 57 then Some (n - 48)
      else if 97 \<le> n \<and> n \<le> 122 then Some (n - 87)
      else if 65 \<le> n \<and> n \<le> 90 then Some (n - 55)
      else None)"

definition isDigitOf :: "nat \<Rightarrow> char \<Rightarrow> bool" where
  "isDigitOf radix c = (case digitValue c of None \<Rightarrow> False | Some v \<Rightarrow> v < radix)"

definition startsWith :: "string \<Rightarrow> string \<Rightarrow> bool" where
  "startsWith txt p = (take (length p) txt = p)"

definition digitsValue :: "nat \<Rightarrow> string \<Rightarrow> int" where
  "digitsValue radix ds =
     foldl (\<lambda>acc c. acc * int radix + int (the (digitValue c))) 0 ds"

definition parseInt :: "string \<Rightarrow> number" where
  "parseInt txt =
     (let s1 = dropWhile isWhiteSpace txt;
          sign = (if startsWith s1 ''-'' then - 1 else 1 :: int);
          s2 = (if startsWith s1 ''-'' \<or> startsWith s1 ''+'' then tl s1 else s1);
          hex = (startsWith s2 ''0x'' \<or> startsWith s2 ''0X'');
          radix = (if hex then 16 else 10 :: nat);
          s3 = (if hex then drop 2 s2 else s2);
          ds = takeWhile (isDigitOf radix) s3
      in if ds = [] then NaN else round64 (sign * digitsValue radix ds))"

text \<open>
  \<open>xs[i]\<close> on an array: \<open>undefined\<close> (here \<open>None\<close>) outside \<open>0 .. length - 1\<close>.
  Reading a property of \<open>undefined\<close> throws a TypeError.
\<close>

datatype error = TypeError

definition at_index :: "'a list \<Rightarrow> int \<Rightarrow> 'a option" where
  "at_index xs i = (if 0 \<le> i \<and> i < int (length xs) then Some (xs ! nat i) else None)"

section \<open>The component state\<close>

text \<open>\<open>interface Project\<close>; \<open>duration\<close> is in seconds.\<close>

record project =
  project_id :: string
  name :: string
  duration :: number

text \<open>
  The background colour is either \<open>'#ffffff'\<close> or \<open>hsl(hue, 70%, 80%)\<close> with the hue
  that \<open>generateRandomColor\<close> drew.
\<close>

datatype color = White | Hsl nat

text \<open>
  The calls by which the component acts on the page, in the order they are made:
  \<open>audio.play()\<close>, \<open>setBackgroundColor\<close> with its argument, \<open>requestFullscreen()\<close> and
  \<open>document.exitFullscreen()\<close>.
\<close>

datatype effect = AudioPlay | BackgroundSet color | FullscreenRequest | FullscreenExit

text \<open>
  The \<open>useState\<close> cells of \<open>App\<close>, followed by what the component reads from and
  writes to its environment: \<open>fullscreenElement\<close> says whether
  \<open>document.fullscreenElement\<close> is set, \<open>draws\<close> counts the calls of
  \<open>generateRandomColor\<close> made so far, and \<open>effects\<close> is the log of calls, oldest first.
\<close>

record app =
  projects :: "project list"
  currentProject :: int
  isRunning :: bool
  isPaused :: bool
  timeLeft :: number
  backgroundColor :: color
  newProjectName :: string
  newProjectDuration :: string
  editingProject :: "string option"
  isFullscreen :: bool
  fullscreenElement :: bool
  draws :: nat
  effects :: "effect list"

definition initial :: app where
  "initial =
     \<lparr>projects = [], currentProject = - 1, isRunning = False, isPaused = False,
      timeLeft = Num 0, backgroundColor = White, newProjectName = [],
      newProjectDuration = [], editingProject = None, isFullscreen = False,
      fullscreenElement = False, draws = 0, effects = []\<rparr>"

section \<open>Event handlers\<close>

text \<open>
  \<open>Math.random\<close> is the environment's: \<open>rnd k\<close> is the hue that the \<open>k\<close>-th call of
  \<open>generateRandomColor\<close> computes, and the identifier that \<open>addProject\<close> draws is its
  argument \<open>newId\<close>.
\<close>

definition generateRandomColor :: "(nat \<Rightarrow> nat) \<Rightarrow> app \<Rightarrow> color" where
  "generateRandomColor rnd s = Hsl (rnd (draws s) mod 360)"

definition setBackgroundColor :: "color \<Rightarrow> app \<Rightarrow> app" where
  "setBackgroundColor c s = s\<lparr>backgroundColor := c, effects := effects s @ [BackgroundSet c]\<rparr>"

text \<open>\<open>setBackgroundColor(generateRandomColor())\<close>.\<close>

definition setRandomBackground :: "(nat \<Rightarrow> nat) \<Rightarrow> app \<Rightarrow> app" where
  "setRandomBackground rnd s =
     (setBackgroundColor (generateRandomColor rnd s) s)\<lparr>draws := Suc (draws s)\<rparr>"

definition addProject :: "string \<Rightarrow> app \<Rightarrow> app" where
  "addProject newId s =
     (if newProjectName s = [] \<or> newProjectDuration s = [] then s
      else
        let d = num_mul (parseInt (newProjectDuration s)) (Num 60);
            newProject = \<lparr>project_id = newId, name = newProjectName s, duration = d\<rparr>
        in s\<lparr>projects := projects s @ [newProject],
             newProjectName := [], newProjectDuration := []\<rparr>)"

definition deleteProject :: "string \<Rightarrow> app \<Rightarrow> app" where
  "deleteProject ident s =
     s\<lparr>projects := filter (\<lambda>p. project_id p \<noteq> ident) (projects s)\<rparr>"

text \<open>
  \<open>startEditing\<close> fills the form with \<open>String(project.duration / 60)\<close>; the floating
  point division and its printing are the runtime's, so the printed text is the
  argument \<open>shown\<close>.
\<close>

definition startEditing :: "string \<Rightarrow> project \<Rightarrow> app \<Rightarrow> app" where
  "startEditing shown p s =
     s\<lparr>editingProject := Some (project_id p), newProjectName := name p,
       newProjectDuration := shown\<rparr>"

definition saveEdit :: "string \<Rightarrow> app \<Rightarrow> app" where
  "saveEdit ident s =
     (if newProjectName s = [] \<or> newProjectDuration s = [] then s
      else
        s\<lparr>projects :=
            map (\<lambda>p. if project_id p = ident
                      then p\<lparr>name := newProjectName s,
                             duration := num_mul (parseInt (newProjectDuration s)) (Num 60)\<rparr>
                      else p) (projects s),
          editingProject := None, newProjectName := [], newProjectDuration := []\<rparr>)"

definition startTracking :: "(nat \<Rightarrow> nat) \<Rightarrow> int \<Rightarrow> app \<Rightarrow> error + app" where
  "startTracking rnd startIndex s =
     (if length (projects s) = 0 then Inr s
      else
        case at_index (projects s) startIndex of
          None \<Rightarrow> Inl TypeError
        | Some p \<Rightarrow>
            Inr (setRandomBackground rnd
                  (s\<lparr>isRunning := True, isPaused := False, currentProject := startIndex,
                     timeLeft := duration p\<rparr>)))"

definition togglePause :: "app \<Rightarrow> app" where
  "togglePause s = s\<lparr>isPaused := \<not> isPaused s\<rparr>"

text \<open>
  \<open>fullscreenRef\<close> and \<open>audioRef\<close> point to elements that every render produces, so
  their \<open>current\<close> is set whenever a handler or an effect runs.
\<close>

definition toggleFullscreen :: "app \<Rightarrow> app" where
  "toggleFullscreen s =
     (if \<not> fullscreenElement s
      then s\<lparr>fullscreenElement := True, isFullscreen := True,
             effects := effects s @ [FullscreenRequest]\<rparr>
      else s\<lparr>fullscreenElement := False, isFullscreen := False,
             effects := effects s @ [FullscreenExit]\<rparr>)"

definition handleFullscreenChange :: "app \<Rightarrow> app" where
  "handleFullscreenChange s = s\<lparr>isFullscreen := fullscreenElement s\<rparr>"

definition returnToPlanning :: "app \<Rightarrow> app" where
  "returnToPlanning s =
     (let s1 = setBackgroundColor White
                 (s\<lparr>isRunning := False, isPaused := False, currentProject := - 1\<rparr>)
      in if isFullscreen s then toggleFullscreen s1 else s1)"

definition playAlarm :: "app \<Rightarrow> app" where
  "playAlarm s = s\<lparr>effects := effects s @ [AudioPlay]\<rparr>"

text \<open>The two inline \<open>onClick\<close> handlers of the navigation buttons.\<close>

definition previousProject :: "(nat \<Rightarrow> nat) \<Rightarrow> app \<Rightarrow> error + app" where
  "previousProject rnd s =
     (case at_index (projects s) (currentProject s - 1) of
        None \<Rightarrow> Inl TypeError
      | Some p \<Rightarrow>
          Inr (setRandomBackground rnd
                (s\<lparr>currentProject := currentProject s - 1, timeLeft := duration p\<rparr>)))"

definition nextProject :: "(nat \<Rightarrow> nat) \<Rightarrow> app \<Rightarrow> error + app" where
  "nextProject rnd s =
     (case at_index (projects s) (currentProject s + 1) of
        None \<Rightarrow> Inl TypeError
      | Some p \<Rightarrow>
          Inr (setRandomBackground rnd
                (s\<lparr>currentProject := currentProject s + 1, timeLeft := duration p\<rparr>)))"

text \<open>
  A button exists only where the JSX renders it: the running view replaces the planning
  view when \<open>isRunning\<close> holds, and each navigation button has a condition of its own.
\<close>

definition previousRendered :: "app \<Rightarrow> bool" where
  "previousRendered s = (isRunning s \<and> currentProject s > 0)"

definition nextRendered :: "app \<Rightarrow> bool" where
  "nextRendered s = (isRunning s \<and> currentProject s < int (length (projects s)) - 1)"

datatype direction = Backward | Forward

text \<open>A press on a navigation button: nothing happens where the button is not rendered.\<close>

definition navigate :: "(nat \<Rightarrow> nat) \<Rightarrow> direction \<Rightarrow> app \<Rightarrow> error + app" where
  "navigate rnd dir s =
     (case dir of
        Backward \<Rightarrow> if previousRendered s then previousProject rnd s else Inr s
      | Forward \<Rightarrow> if nextRendered s then nextProject rnd s else Inr s)"

section \<open>The timer effect\<close>

text \<open>
  The effect with dependencies \<open>isRunning, isPaused, timeLeft, currentProject, projects\<close>.
  Its first branch arms a one-second interval and changes no state: the interval is
  armed exactly when \<open>timerArmed\<close> holds. Its second branch plays the alarm and advances
  or ends the run.
\<close>

definition timerArmed :: "app \<Rightarrow> bool" where
  "timerArmed s = (isRunning s \<and> \<not> isPaused s \<and> num_gt (timeLeft s) (Num 0))"

definition timerEffect :: "(nat \<Rightarrow> nat) \<Rightarrow> app \<Rightarrow> error + app" where
  "timerEffect rnd s =
     (if isRunning s \<and> \<not> isPaused s \<and> num_gt (timeLeft s) (Num 0) then Inr s
      else if isRunning s \<and> timeLeft s = Num 0 then
        let s1 = playAlarm s in
        if currentProject s < int (length (projects s)) - 1 then
          case at_index (projects s) (currentProject s + 1) of
            None \<Rightarrow> Inl TypeError
          | Some p \<Rightarrow>
              Inr (setRandomBackground rnd
                    (s1\<lparr>currentProject := currentProject s + 1, timeLeft := duration p\<rparr>))
        else
          let s2 = setBackgroundColor White (s1\<lparr>isRunning := False, currentProject := - 1\<rparr>)
          in Inr (if isFullscreen s then toggleFullscreen s2 else s2)
      else Inr s)"

text \<open>
  After a handler has changed the state React renders and runs the effect again, and
  again after each state change the effect itself makes: \<open>afterRender\<close> follows the
  effect until it changes nothing more. Each pass of the second branch moves
  \<open>currentProject\<close> up or ends the run.
\<close>

function afterRender :: "(nat \<Rightarrow> nat) \<Rightarrow> app \<Rightarrow> error + app" where
  "afterRender rnd s =
     (if isRunning s \<and> timeLeft s = Num 0 then
        (case timerEffect rnd s of
           Inl e \<Rightarrow> Inl e
         | Inr s' \<Rightarrow> afterRender rnd s')
      else Inr s)"
  by pat_completeness auto
termination
  by (relation "measure (\<lambda>(rnd, s).
        if isRunning s then Suc (nat (int (length (projects s)) - currentProject s)) else 0)")
     (auto simp: timerEffect_def Let_def setRandomBackground_def setBackgroundColor_def
        playAlarm_def toggleFullscreen_def split: if_splits option.splits)

text \<open>The callback of the interval: \<open>setTimeLeft(prev => prev - 1)\<close>.\<close>

definition intervalCallback :: "app \<Rightarrow> app" where
  "intervalCallback s = s\<lparr>timeLeft := num_sub (timeLeft s) (Num 1)\<rparr>"

text \<open>One second passes: the callback fires if the interval is armed, then React renders.\<close>

definition tick :: "(nat \<Rightarrow> nat) \<Rightarrow> app \<Rightarrow> error + app" where
  "tick rnd s = (if timerArmed s then afterRender rnd (intervalCallback s) else Inr s)"

fun ticks :: "(nat \<Rightarrow> nat) \<Rightarrow> nat \<Rightarrow> app \<Rightarrow> error + app" where
  "ticks rnd 0 s = Inr s"
| "ticks rnd (Suc n) s =
     (case tick rnd s of Inl e \<Rightarrow> Inl e | Inr s' \<Rightarrow> ticks rnd n s')"

section \<open>The Engine operations of the specification\<close>

text \<open>
  A handler followed by the render it causes. \<open>start\<close>, \<open>togglePause\<close>, \<open>navigate\<close> and
  \<open>exit\<close> of the specification are the handlers \<open>startTracking\<close>, \<open>togglePause\<close>, the
  navigation buttons and \<open>returnToPlanning\<close>, each followed by its render.
\<close>

definition andRender :: "(nat \<Rightarrow> nat) \<Rightarrow> error + app \<Rightarrow> error + app" where
  "andRender rnd r = (case r of Inl e \<Rightarrow> Inl e | Inr s \<Rightarrow> afterRender rnd s)"

definition engineStart :: "(nat \<Rightarrow> nat) \<Rightarrow> int \<Rightarrow> app \<Rightarrow> error + app" where
  "engineStart rnd startIndex s = andRender rnd (startTracking rnd startIndex s)"

definition engineTogglePause :: "(nat \<Rightarrow> nat) \<Rightarrow> app \<Rightarrow> error + app" where
  "engineTogglePause rnd s = afterRender rnd (togglePause s)"

definition engineNavigate :: "(nat \<Rightarrow> nat) \<Rightarrow> direction \<Rightarrow> app \<Rightarrow> error + app" where
  "engineNavigate rnd dir s =
     (case dir of
        Backward \<Rightarrow> if previousRendered s then andRender rnd (previousProject rnd s) else Inr s
      | Forward \<Rightarrow> if nextRendered s then andRender rnd (nextProject rnd s) else Inr s)"

definition engineExit :: "(nat \<Rightarrow> nat) \<Rightarrow> app \<Rightarrow> error + app" where
  "engineExit rnd s = afterRender rnd (returnToPlanning s)"

text \<open>The three Engine states, read off \<open>isRunning\<close> and \<open>isPaused\<close>.\<close>

datatype engine_state = Idle | Running | Paused

definition engineState :: "app \<Rightarrow> engine_state" where
  "engineState s = (if \<not> isRunning s then Idle else if isPaused s then Paused else Running)"

text \<open>The Registry operations: the form is filled in, then the button is pressed.\<close>

definition add :: "string \<Rightarrow> string \<Rightarrow> string \<Rightarrow> app \<Rightarrow> app" where
  "add newId nm minutes s =
     addProject newId (s\<lparr>newProjectName := nm, newProjectDuration := minutes\<rparr>)"

definition edit :: "string \<Rightarrow> string \<Rightarrow> string \<Rightarrow> app \<Rightarrow> app" where
  "edit ident nm minutes s =
     saveEdit ident (s\<lparr>newProjectName := nm, newProjectDuration := minutes\<rparr>)"

section \<open>What the user and the clock can do\<close>

datatype action =
    TypeName string
  | TypeDuration string
  | ClickAdd string
  | ClickDelete nat
  | ClickEdit nat string
  | ClickSave nat
  | ClickPlay nat
  | ClickStartAll
  | ClickFullscreen
  | ClickPause
  | ClickReturn
  | ClickPrevious
  | ClickNext
  | Second
  | LeaveFullscreen

text \<open>
  Which control the JSX renders in a state. A row of the planning view shows the save
  button while it is being edited and the play, edit and delete buttons otherwise; rows
  are named by their position. \<open>Second\<close> is the interval firing, \<open>LeaveFullscreen\<close> the
  browser leaving full screen on the user's key press.
\<close>

definition rowEdited :: "app \<Rightarrow> nat \<Rightarrow> bool" where
  "rowEdited s i = (editingProject s = Some (project_id (projects s ! i)))"

fun available :: "app \<Rightarrow> action \<Rightarrow> bool" where
  "available s (TypeName v) = (\<not> isRunning s)"
| "available s (TypeDuration v) = (\<not> isRunning s)"
| "available s (ClickAdd newId) = (\<not> isRunning s)"
| "available s (ClickDelete i) = (\<not> isRunning s \<and> i < length (projects s) \<and> \<not> rowEdited s i)"
| "available s (ClickEdit i shown) =
     (\<not> isRunning s \<and> i < length (projects s) \<and> \<not> rowEdited s i)"
| "available s (ClickSave i) = (\<not> isRunning s \<and> i < length (projects s) \<and> rowEdited s i)"
| "available s (ClickPlay i) = (\<not> isRunning s \<and> i < length (projects s) \<and> \<not> rowEdited s i)"
| "available s ClickStartAll = (\<not> isRunning s \<and> length (projects s) > 0)"
| "available s ClickFullscreen = isRunning s"
| "available s ClickPause = isRunning s"
| "available s ClickReturn = isRunning s"
| "available s ClickPrevious = previousRendered s"
| "available s ClickNext = nextRendered s"
| "available s Second = timerArmed s"
| "available s LeaveFullscreen = fullscreenElement s"

fun handle :: "(nat \<Rightarrow> nat) \<Rightarrow> action \<Rightarrow> app \<Rightarrow> error + app" where
  "handle rnd (TypeName v) s = Inr (s\<lparr>newProjectName := v\<rparr>)"
| "handle rnd (TypeDuration v) s = Inr (s\<lparr>newProjectDuration := v\<rparr>)"
| "handle rnd (ClickAdd newId) s = Inr (addProject newId s)"
| "handle rnd (ClickDelete i) s = Inr (deleteProject (project_id (projects s ! i)) s)"
| "handle rnd (ClickEdit i shown) s = Inr (startEditing shown (projects s ! i) s)"
| "handle rnd (ClickSave i) s = Inr (saveEdit (project_id (projects s ! i)) s)"
| "handle rnd (ClickPlay i) s = startTracking rnd (int i) s"
| "handle rnd ClickStartAll s = startTracking rnd 0 s"
| "handle rnd ClickFullscreen s = Inr (toggleFullscreen s)"
| "handle rnd ClickPause s = Inr (togglePause s)"
| "handle rnd ClickReturn s = Inr (returnToPlanning s)"
| "handle rnd ClickPrevious s = previousProject rnd s"
| "handle rnd ClickNext s = nextProject rnd s"
| "handle rnd Second s = Inr (intervalCallback s)"
| "handle rnd LeaveFullscreen s = Inr (handleFullscreenChange (s\<lparr>fullscreenElement := False\<rparr>))"

definition step :: "(nat \<Rightarrow> nat) \<Rightarrow> action \<Rightarrow> app \<Rightarrow> error + app" where
  "step rnd a s = (if available s a then andRender rnd (handle rnd a s) else Inr s)"

inductive reachable :: "(nat \<Rightarrow> nat) \<Rightarrow> app \<Rightarrow> bool" for rnd :: "nat \<Rightarrow> nat" where
  reachable_initial: "reachable rnd initial"
| reachable_step: "reachable rnd s \<Longrightarrow> step rnd a s = Inr s' \<Longrightarrow> reachable rnd s'"

section \<open>Properties of states and logs\<close>

definition indexInvariant :: "app \<Rightarrow> bool" where
  "indexInvariant s =
     (isRunning s \<longrightarrow> 0 \<le> currentProject s \<and> currentProject s < int (length (projects s)))"

text \<open>The effect has nothing left to do, and the flag mirrors the document.\<close>

definition settled :: "app \<Rightarrow> bool" where
  "settled s = (\<not> (isRunning s \<and> timeLeft s = Num 0))"

definition fullscreenSynced :: "app \<Rightarrow> bool" where
  "fullscreenSynced s = (isFullscreen s = fullscreenElement s)"

definition positiveDurations :: "project list \<Rightarrow> bool" where
  "positiveDurations ps = list_all (\<lambda>p. num_gt (duration p) (Num 0)) ps"

text \<open>
  A duration over which the countdown is exact: subtracting 1 from a whole number of at
  most \<open>2 ^ 53\<close> gives the next lower whole number, with no rounding.
\<close>

fun countsExactly :: "number \<Rightarrow> bool" where
  "countsExactly (Num d) = (\<bar>d\<bar> \<le> int exactLimit)"
| "countsExactly _ = False"

definition exactDurations :: "project list \<Rightarrow> bool" where
  "exactDurations ps = list_all (\<lambda>p. countsExactly (duration p)) ps"

fun seconds :: "number \<Rightarrow> nat" where
  "seconds (Num d) = nat d"
| "seconds _ = 0"

definition totalSeconds :: "project list \<Rightarrow> nat" where
  "totalSeconds ps = sum_list (map (\<lambda>p. seconds (duration p)) ps)"

text \<open>
  The signals of the specification in the log: \<open>onAlarm\<close> is a call of \<open>audio.play()\<close>,
  \<open>onRunComplete\<close> the reset of the background to white, \<open>onProjectChanged\<close> the choice
  of a random background.
\<close>

definition alarms :: "app \<Rightarrow> nat" where
  "alarms s = count_list (effects s) AudioPlay"

definition runCompletes :: "app \<Rightarrow> nat" where
  "runCompletes s = count_list (effects s) (BackgroundSet White)"

section \<open>States named in the proofs\<close>

text \<open>
  The state in which \<open>startTracking\<close> leaves the component at an index in range, and
  the two states in which the second branch of the timer effect leaves it once the
  count has reached zero: advanced to the next project, or with the run ended.
\<close>

definition started :: "(nat \<Rightarrow> nat) \<Rightarrow> nat \<Rightarrow> app \<Rightarrow> app" where
  "started rnd i s =
     setRandomBackground rnd
       (s\<lparr>isRunning := True, isPaused := False, currentProject := int i,
          timeLeft := duration (projects s ! i)\<rparr>)"

definition advanced :: "(nat \<Rightarrow> nat) \<Rightarrow> app \<Rightarrow> app" where
  "advanced rnd s =
     setRandomBackground rnd
       ((playAlarm (s\<lparr>timeLeft := Num 0\<rparr>))
          \<lparr>currentProject := currentProject s + 1,
           timeLeft := duration (projects s ! nat (currentProject s + 1))\<rparr>)"

definition completed :: "app \<Rightarrow> app" where
  "completed s =
     (let s2 = setBackgroundColor White
                 ((playAlarm (s\<lparr>timeLeft := Num 0\<rparr>))\<lparr>isRunning := False, currentProject := - 1\<rparr>)
      in if isFullscreen s then toggleFullscreen s2 else s2)"

section \<open>Example states\<close>

definition noHue :: "nat \<Rightarrow> nat" where
  "noHue k = 0"

definition draftReview :: "project list" where
  "draftReview =
     [\<lparr>project_id = ''a1'', name = ''Draft'', duration = Num 60\<rparr>,
      \<lparr>project_id = ''b2'', name = ''Review'', duration = Num 120\<rparr>]"

text \<open>
  The planning view after the two projects have been added (one and two minutes), the
  run started from the first of them, and the same run moved on to the second.
\<close>

definition planned :: app where
  "planned = initial\<lparr>projects := draftReview\<rparr>"

definition tracking :: app where
  "tracking =
     initial\<lparr>projects := draftReview, currentProject := 0, isRunning := True,
             timeLeft := Num 60, backgroundColor := Hsl 0, draws := 1,
             effects := [BackgroundSet (Hsl 0)]\<rparr>"

definition reviewing :: app where
  "reviewing =
     initial\<lparr>projects := draftReview, currentProject := 1, isRunning := True,
             timeLeft := Num 120, backgroundColor := Hsl 0, draws := 2,
             effects := [BackgroundSet (Hsl 0), BackgroundSet (Hsl 0)]\<rparr>"

text \<open>
  One project of 200000000000000 minutes, as the form accepts it: 12000000000000000
  seconds, above \<open>2 ^ 53\<close>.
\<close>

definition ages :: "project list" where
  "ages = [\<lparr>project_id = ''c3'', name = ''Ages'', duration = Num 12000000000000000\<rparr>]"

definition agesPlanned :: app where
  "agesPlanned = initial\<lparr>projects := ages\<rparr>"

section \<open>Rounding\<close>

lemma bitLength_lower: "0 < n \<Longrightarrow> 2 ^ (bitLength n - 1) \<le> n"
proof (induction n rule: bitLength.induct)
  case (1 n)
  show ?case
  proof (cases "n div 2 = 0")
    case True
    then have "bitLength n = 1"
      using "1.prems" by (simp add: bitLength.simps [of n] bitLength.simps [of 0])
    then show ?thesis using "1.prems" by simp
  next
    case False
    then have ih: "2 ^ (bitLength (n div 2) - 1) \<le> n div 2"
      using "1.IH" "1.prems" by simp
    have pos: "0 < bitLength (n div 2)"
      using False by (simp add: bitLength.simps [of "n div 2"])
    have "bitLength n - 1 = Suc (bitLength (n div 2) - 1)"
      using "1.prems" pos by (simp add: bitLength.simps [of n])
    then have "(2::nat) ^ (bitLength n - 1) = 2 * 2 ^ (bitLength (n div 2) - 1)" by simp
    also have "\<dots> \<le> 2 * (n div 2)" using ih by simp
    also have "\<dots> \<le> n" by simp
    finally show ?thesis .
  qed
qed

lemma bitLength_upper: "n < 2 ^ bitLength n"
proof (induction n rule: bitLength.induct)
  case (1 n)
  show ?case
  proof (cases "n = 0")
    case True
    then show ?thesis by simp
  next
    case False
    then have ih: "n div 2 < 2 ^ bitLength (n div 2)" using "1.IH" by simp
    have "bitLength n = Suc (bitLength (n div 2))"
      using False by (simp add: bitLength.simps [of n])
    then have "(2::nat) ^ bitLength n = 2 * 2 ^ bitLength (n div 2)" by simp
    moreover have "n < 2 * (n div 2) + 2" by presburger
    ultimately show ?thesis using ih by linarith
  qed
qed

lemma bitLength_eq:
  assumes "2 ^ (k - 1) \<le> n" "n < 2 ^ k" "0 < k"
  shows "bitLength n = k"
proof -
  have npos: "0 < n"
    using assms(1) by (metis gr0I not_le zero_less_numeral zero_less_power)
  have "(2::nat) ^ (bitLength n - 1) < 2 ^ k"
    using bitLength_lower [OF npos] assms(2) by linarith
  then have a: "bitLength n - 1 < k"
    by (simp only: power_strict_increasing_iff one_less_numeral_iff num.simps semiring_norm)
  have "(2::nat) ^ (k - 1) < 2 ^ bitLength n"
    using bitLength_upper [of n] assms(1) by linarith
  then have b: "k - 1 < bitLength n"
    by (simp only: power_strict_increasing_iff one_less_numeral_iff num.simps semiring_norm)
  from a b assms(3) show ?thesis by linarith
qed

lemma round64_exact: "\<bar>n\<bar> < int exactLimit \<Longrightarrow> round64 n = Num n"
  by (simp add: round64_def Let_def nat_less_iff)

lemma round64_rounded:
  assumes "\<not> nat \<bar>n\<bar> < exactLimit"
  shows "\<exists>m. 0 < m \<and>
           round64 n = (if overflowLimit \<le> m then (if n < 0 then NegInf else PosInf)
                        else Num (if n < 0 then - int m else int m))"
proof -
  define a where "a = nat \<bar>n\<bar>"
  define u :: nat where "u = 2 ^ (bitLength a - 53)"
  define q where "q = a div u"
  define c where
    "c = (if 2 * (a mod u) < u \<or> (2 * (a mod u) = u \<and> even q) then q else q + 1)"
  have "0 < exactLimit" unfolding exactLimit_def by (rule zero_less_power) simp
  then have apos: "0 < a" using assms unfolding a_def by linarith
  have "u \<le> 2 ^ (bitLength a - 1)" unfolding u_def by (rule power_increasing) simp_all
  also have "\<dots> \<le> a" using bitLength_lower [OF apos] .
  finally have "u \<le> a" .
  moreover have upos: "0 < u" unfolding u_def by (rule zero_less_power) simp
  ultimately have "0 < q" unfolding q_def by (simp only: div_greater_zero_iff)
  then have "0 < c"
    unfolding c_def
    by (cases "2 * (a mod u) < u \<or> (2 * (a mod u) = u \<and> even q)") simp_all
  then have mpos: "0 < c * u" using upos by simp
  have "round64 n =
      (if overflowLimit \<le> c * u then (if n < 0 then NegInf else PosInf)
       else Num (if n < 0 then - int (c * u) else int (c * u)))"
    unfolding round64_def Let_def c_def q_def u_def a_def using assms by (simp only: if_False)
  with mpos show ?thesis by blast
qed

lemma round64_zero_iff: "round64 n = Num 0 \<longleftrightarrow> n = 0"
proof
  assume "n = 0"
  then show "round64 n = Num 0" unfolding round64_def Let_def exactLimit_def by simp
next
  assume z: "round64 n = Num 0"
  show "n = 0"
  proof (cases "nat \<bar>n\<bar> < exactLimit")
    case True
    then have "round64 n = Num n" unfolding round64_def Let_def by (simp only: if_True)
    with z show ?thesis by simp
  next
    case False
    obtain m where m: "0 < m"
      "round64 n = (if overflowLimit \<le> m then (if n < 0 then NegInf else PosInf)
                    else Num (if n < 0 then - int m else int m))"
      using round64_rounded [OF False] by blast
    show ?thesis
    proof (cases "overflowLimit \<le> m")
      case True
      then show ?thesis using z m(2) by (cases "n < 0") simp_all
    next
      case False
      then have "round64 n = Num (if n < 0 then - int m else int m)" using m(2) by simp
      with z m(1) show ?thesis by (cases "n < 0") simp_all
    qed
  qed
qed

lemma round64_stuck: "round64 11999999999999999 = Num 12000000000000000"
proof -
  have b: "bitLength 11999999999999999 = 54"
    by (rule bitLength_eq) simp_all
  show ?thesis
    unfolding round64_def Let_def
    by (simp add: b exactLimit_def overflowLimit_def)
qed

lemma round64_ages: "round64 12000000000000000 = Num 12000000000000000"
proof -
  have b: "bitLength 12000000000000000 = 54"
    by (rule bitLength_eq) simp_all
  show ?thesis
    unfolding round64_def Let_def
    by (simp add: b exactLimit_def overflowLimit_def)
qed

lemma num_gt_nonzero: "num_gt d (Num 0) \<Longrightarrow> d \<noteq> Num 0"
  by (cases d) simp_all

lemma num_sub_one_exact:
  "0 < t \<Longrightarrow> t \<le> int exactLimit \<Longrightarrow> num_sub (Num t) (Num 1) = Num (t - 1)"
  by (simp add: round64_exact)

lemma num_sub_one_zero:
  "num_gt d (Num 0) \<Longrightarrow> num_sub d (Num 1) = Num 0 \<longleftrightarrow> d = Num 1"
  by (cases d) (simp_all add: round64_zero_iff)

lemma small_numbers:
  "round64 0 = Num 0" "round64 1 = Num 1" "round64 2 = Num 2" "round64 10 = Num 10"
  "round64 60 = Num 60" "round64 120 = Num 120"
  "round64 200000000000000 = Num 200000000000000"
  by (simp_all add: round64_exact exactLimit_def)

section \<open>The countdown\<close>

declare afterRender.simps [simp del]

lemma afterRender_settled: "settled s \<Longrightarrow> afterRender rnd s = Inr s"
  by (subst afterRender.simps) (auto simp: settled_def)

lemma ticks_add:
  "ticks rnd (a + b) s = (case ticks rnd a s of Inl e \<Rightarrow> Inl e | Inr s' \<Rightarrow> ticks rnd b s')"
  by (induction a arbitrary: s) (auto split: sum.splits)

lemma tick_no_expiry:
  assumes "isRunning s" "\<not> isPaused s" "num_gt (timeLeft s) (Num 0)" "timeLeft s \<noteq> Num 1"
  shows "tick rnd s = Inr (intervalCallback s)"
proof -
  have "num_sub (timeLeft s) (Num 1) \<noteq> Num 0"
    using num_sub_one_zero [OF assms(3)] assms(4) by simp
  then have "settled (intervalCallback s)"
    by (simp add: settled_def intervalCallback_def)
  then show ?thesis
    using assms by (simp add: tick_def timerArmed_def afterRender_settled)
qed

lemma tick_counting:
  assumes "isRunning s" "\<not> isPaused s" "timeLeft s = Num t" "1 < t" "t \<le> int exactLimit"
  shows "tick rnd s = Inr (s\<lparr>timeLeft := Num (t - 1)\<rparr>)"
proof -
  have "num_sub (timeLeft s) (Num 1) = Num (t - 1)"
    using assms(3,4,5) num_sub_one_exact [of t] by simp
  then have "intervalCallback s = s\<lparr>timeLeft := Num (t - 1)\<rparr>"
    by (simp add: intervalCallback_def)
  then show ?thesis
    using tick_no_expiry [OF assms(1,2), of rnd] assms(3,4) by simp
qed

lemma ticks_counting:
  "isRunning s \<Longrightarrow> \<not> isPaused s \<Longrightarrow> timeLeft s = Num (int n + k) \<Longrightarrow> 1 \<le> k \<Longrightarrow>
   int n + k \<le> int exactLimit \<Longrightarrow> ticks rnd n s = Inr (s\<lparr>timeLeft := Num k\<rparr>)"
proof (induction n arbitrary: s)
  case 0
  then show ?case by simp
next
  case (Suc n)
  have t: "tick rnd s = Inr (s\<lparr>timeLeft := Num (int n + k)\<rparr>)"
    using tick_counting [of s "int (Suc n) + k" rnd] Suc.prems by simp
  have "ticks rnd n (s\<lparr>timeLeft := Num (int n + k)\<rparr>) =
      Inr (s\<lparr>timeLeft := Num (int n + k)\<rparr>\<lparr>timeLeft := Num k\<rparr>)"
    by (rule Suc.IH) (use Suc.prems in simp_all)
  with t show ?case by simp
qed

lemma last_tick_advance:
  assumes "isRunning s" "\<not> isPaused s" "timeLeft s = Num 1" "0 \<le> currentProject s"
    "currentProject s < int (length (projects s)) - 1"
    "num_gt (duration (projects s ! nat (currentProject s + 1))) (Num 0)"
  shows "tick rnd s = Inr (advanced rnd s)"
proof -
  let ?s0 = "intervalCallback s"
  have e: "timerEffect rnd ?s0 = Inr (advanced rnd s)"
    using assms
    by (simp add: timerEffect_def intervalCallback_def at_index_def advanced_def Let_def
          small_numbers)
  have "settled (advanced rnd s)"
    using num_gt_nonzero [OF assms(6)]
    by (simp add: settled_def advanced_def setRandomBackground_def setBackgroundColor_def
          playAlarm_def)
  then have "afterRender rnd (advanced rnd s) = Inr (advanced rnd s)"
    by (rule afterRender_settled)
  moreover have "afterRender rnd ?s0 = afterRender rnd (advanced rnd s)"
    by (subst afterRender.simps)
       (use assms e in \<open>simp add: intervalCallback_def small_numbers\<close>)
  ultimately show ?thesis
    using assms by (simp add: tick_def timerArmed_def)
qed

lemma last_tick_complete:
  assumes "isRunning s" "\<not> isPaused s" "timeLeft s = Num 1"
    "\<not> currentProject s < int (length (projects s)) - 1"
  shows "tick rnd s = Inr (completed s)"
proof -
  let ?s0 = "intervalCallback s"
  have e: "timerEffect rnd ?s0 = Inr (completed s)"
    using assms
    by (simp add: timerEffect_def intervalCallback_def completed_def Let_def small_numbers)
  have "settled (completed s)"
    by (auto simp: settled_def completed_def setBackgroundColor_def playAlarm_def toggleFullscreen_def Let_def)
  then have "afterRender rnd (completed s) = Inr (completed s)"
    by (rule afterRender_settled)
  moreover have "afterRender rnd ?s0 = afterRender rnd (completed s)"
    by (subst afterRender.simps)
       (use assms e in \<open>simp add: intervalCallback_def small_numbers\<close>)
  ultimately show ?thesis
    using assms by (simp add: tick_def timerArmed_def)
qed


lemma advanced_fields:
  "projects (advanced rnd s) = projects s"
  "isRunning (advanced rnd s) = isRunning s"
  "isPaused (advanced rnd s) = isPaused s"
  "currentProject (advanced rnd s) = currentProject s + 1"
  "timeLeft (advanced rnd s) = duration (projects s ! nat (currentProject s + 1))"
  "alarms (advanced rnd s) = Suc (alarms s)"
  "runCompletes (advanced rnd s) = runCompletes s"
  by (simp_all add: advanced_def setRandomBackground_def setBackgroundColor_def playAlarm_def
        generateRandomColor_def alarms_def runCompletes_def)

lemma completed_fields:
  "projects (completed s) = projects s"
  "isRunning (completed s) = False"
  "currentProject (completed s) = - 1"
  "alarms (completed s) = Suc (alarms s)"
  "runCompletes (completed s) = Suc (runCompletes s)"
  by (simp_all add: completed_def setBackgroundColor_def playAlarm_def toggleFullscreen_def
        alarms_def runCompletes_def Let_def)

lemma positive_nth:
  "positiveDurations ps \<Longrightarrow> i < length ps \<Longrightarrow> num_gt (duration (ps ! i)) (Num 0)"
  by (simp add: positiveDurations_def list_all_length)

lemma exact_nth:
  assumes "positiveDurations ps" "exactDurations ps" "i < length ps"
  shows "\<exists>t. duration (ps ! i) = Num t \<and> 0 < t \<and> t \<le> int exactLimit"
proof -
  have g: "num_gt (duration (ps ! i)) (Num 0)"
    using positive_nth [OF assms(1,3)] .
  have e: "countsExactly (duration (ps ! i))"
    using assms(2,3) by (simp add: exactDurations_def list_all_length)
  from g e show ?thesis by (cases "duration (ps ! i)") simp_all
qed

lemma totalSeconds_drop:
  "i < length ps \<Longrightarrow>
   totalSeconds (drop i ps) = seconds (duration (ps ! i)) + totalSeconds (drop (Suc i) ps)"
  by (simp add: totalSeconds_def Cons_nth_drop_Suc [symmetric])

lemma countdown_to_one:
  assumes "isRunning s" "\<not> isPaused s" "timeLeft s = Num t" "0 < t" "t \<le> int exactLimit"
  shows "ticks rnd (nat t - 1) s = Inr (s\<lparr>timeLeft := Num 1\<rparr>)"
  using ticks_counting [of s "nat t - 1" 1 rnd] assms by simp

lemma ticks_Suc_end:
  "ticks rnd n s = Inr s1 \<Longrightarrow> ticks rnd (Suc n) s = tick rnd s1"
  using ticks_add [of rnd n 1 s] by (simp split: sum.splits)

lemma run_from:
  assumes "positiveDurations (projects s)" "isRunning s" "\<not> isPaused s"
    "currentProject s = int i" "i < length (projects s)"
    "timeLeft s = duration (projects s ! i)" "exactDurations (projects s)"
  shows "\<exists>s2. ticks rnd (totalSeconds (drop i (projects s))) s = Inr s2 \<and>
           \<not> isRunning s2 \<and> currentProject s2 = - 1 \<and>
           alarms s2 = alarms s + (length (projects s) - i) \<and>
           runCompletes s2 = runCompletes s + 1"
  using assms
proof (induction "length (projects s) - i" arbitrary: s i)
  case 0
  then show ?case by simp
next
  case (Suc m)
  obtain t where t: "duration (projects s ! i) = Num t" "0 < t" "t \<le> int exactLimit"
    using exact_nth [OF Suc.prems(1) Suc.prems(7) Suc.prems(5)] by blast
  let ?s1 = "s\<lparr>timeLeft := Num 1\<rparr>"
  have c: "ticks rnd (nat t - 1) s = Inr ?s1"
    using countdown_to_one [of s t rnd] Suc.prems t by simp
  have n: "nat t = Suc (nat t - 1)" using t by simp
  have first: "ticks rnd (nat t) s = tick rnd ?s1"
    using ticks_Suc_end [OF c] n by simp
  have total: "totalSeconds (drop i (projects s)) = nat t + totalSeconds (drop (Suc i) (projects s))"
    using totalSeconds_drop [OF Suc.prems(5)] t by simp
  show ?case
  proof (cases "Suc i < length (projects s)")
    case True
    let ?a = "advanced rnd ?s1"
    have u: "num_gt (duration (projects s ! Suc i)) (Num 0)"
      using positive_nth [OF Suc.prems(1) True] .
    have adv: "tick rnd ?s1 = Inr ?a"
      by (rule last_tick_advance)
         (use Suc.prems True u in \<open>simp_all add: nat_add_distrib\<close>)
    have idx: "nat (int i + 1) = Suc i" by simp
    have ih: "\<exists>s2. ticks rnd (totalSeconds (drop (Suc i) (projects ?a))) ?a = Inr s2 \<and>
           \<not> isRunning s2 \<and> currentProject s2 = - 1 \<and>
           alarms s2 = alarms ?a + (length (projects ?a) - Suc i) \<and>
           runCompletes s2 = runCompletes ?a + 1"
      by (rule Suc.hyps(1))
         (use Suc.hyps(2) Suc.prems True in \<open>simp_all add: advanced_fields idx\<close>)
    then obtain s2 where s2: "ticks rnd (totalSeconds (drop (Suc i) (projects s))) ?a = Inr s2"
      "\<not> isRunning s2" "currentProject s2 = - 1"
      "alarms s2 = alarms ?a + (length (projects s) - Suc i)"
      "runCompletes s2 = runCompletes ?a + 1"
      by (auto simp: advanced_fields)
    have al: "alarms ?a = Suc (alarms s)" "runCompletes ?a = runCompletes s"
      using advanced_fields(6,7) [of rnd ?s1] by (simp_all add: alarms_def runCompletes_def)
    have "ticks rnd (totalSeconds (drop i (projects s))) s = Inr s2"
      using total first adv s2(1) by (simp add: ticks_add)
    moreover have "alarms s2 = alarms s + (length (projects s) - i)"
      using s2(4) al True by simp
    moreover have "runCompletes s2 = runCompletes s + 1"
      using s2(5) al by simp
    ultimately show ?thesis using s2(2,3) by blast
  next
    case False
    let ?c = "completed ?s1"
    have len: "length (projects s) = Suc i" using False Suc.prems(5) by simp
    have fin: "tick rnd ?s1 = Inr ?c"
      by (rule last_tick_complete) (use Suc.prems len in simp_all)
    have rest: "totalSeconds (drop (Suc i) (projects s)) = 0"
      using len by (simp add: totalSeconds_def)
    have "ticks rnd (totalSeconds (drop i (projects s))) s = Inr ?c"
      using total rest first fin by simp
    moreover have "alarms ?c = alarms s + (length (projects s) - i)"
      using len completed_fields(4) [of ?s1] by (simp add: alarms_def)
    moreover have "runCompletes ?c = runCompletes s + 1"
      using completed_fields(5) [of ?s1] by (simp add: runCompletes_def)
    ultimately show ?thesis by (simp add: completed_fields)
  qed
qed


lemma run_prefix:
  assumes "positiveDurations (projects s)" "isRunning s" "\<not> isPaused s"
    "currentProject s = int i" "i < length (projects s)"
    "timeLeft s = duration (projects s ! i)"
    "k < totalSeconds (drop i (projects s))" "exactDurations (projects s)"
  shows "\<exists>s3. ticks rnd k s = Inr s3 \<and> isRunning s3 \<and> runCompletes s3 = runCompletes s"
  using assms
proof (induction "length (projects s) - i" arbitrary: s i k)
  case 0
  then show ?case by simp
next
  case (Suc m)
  obtain t where t: "duration (projects s ! i) = Num t" "0 < t" "t \<le> int exactLimit"
    using exact_nth [OF Suc.prems(1) Suc.prems(8) Suc.prems(5)] by blast
  have total: "totalSeconds (drop i (projects s)) = nat t + totalSeconds (drop (Suc i) (projects s))"
    using totalSeconds_drop [OF Suc.prems(5)] t by simp
  show ?case
  proof (cases "k < nat t")
    case True
    have "ticks rnd k s = Inr (s\<lparr>timeLeft := Num (t - int k)\<rparr>)"
      by (rule ticks_counting) (use Suc.prems t True in simp_all)
    then show ?thesis using Suc.prems(2) by (simp add: runCompletes_def)
  next
    case False
    let ?s1 = "s\<lparr>timeLeft := Num 1\<rparr>"
    let ?a = "advanced rnd ?s1"
    have c: "ticks rnd (nat t - 1) s = Inr ?s1"
      using countdown_to_one [of s t rnd] Suc.prems t by simp
    have n: "nat t = Suc (nat t - 1)" using t by simp
    have first: "ticks rnd (nat t) s = tick rnd ?s1"
      using ticks_Suc_end [OF c] n by simp
    have more: "Suc i < length (projects s)"
    proof (rule ccontr)
      assume "\<not> Suc i < length (projects s)"
      then have "totalSeconds (drop (Suc i) (projects s)) = 0"
        by (simp add: totalSeconds_def)
      with total Suc.prems(7) False show False by simp
    qed
    have u: "num_gt (duration (projects s ! Suc i)) (Num 0)"
      using positive_nth [OF Suc.prems(1) more] .
    have adv: "tick rnd ?s1 = Inr ?a"
      by (rule last_tick_advance)
         (use Suc.prems more u in \<open>simp_all add: nat_add_distrib\<close>)
    have idx: "nat (int i + 1) = Suc i" by simp
    obtain j where j: "k = nat t + j" using False by (metis le_add_diff_inverse not_less)
    have jlt: "j < totalSeconds (drop (Suc i) (projects ?a))"
      using Suc.prems(7) total j by (simp add: advanced_fields)
    have "\<exists>s3. ticks rnd j ?a = Inr s3 \<and> isRunning s3 \<and> runCompletes s3 = runCompletes ?a"
      by (rule Suc.hyps(1) [where i = "Suc i"])
         (use Suc.hyps(2) Suc.prems more jlt in \<open>simp_all add: advanced_fields idx\<close>)
    then obtain s3 where s3: "ticks rnd j ?a = Inr s3" "isRunning s3"
      "runCompletes s3 = runCompletes ?a" by blast
    have "ticks rnd k s = Inr s3"
      using j first adv s3(1) by (simp add: ticks_add)
    moreover have "runCompletes ?a = runCompletes s"
      using advanced_fields(7) [of rnd ?s1] by (simp add: runCompletes_def)
    ultimately show ?thesis using s3 by simp
  qed
qed

lemma started_fields:
  "projects (started rnd i s) = projects s"
  "isRunning (started rnd i s)"
  "\<not> isPaused (started rnd i s)"
  "currentProject (started rnd i s) = int i"
  "timeLeft (started rnd i s) = duration (projects s ! i)"
  "alarms (started rnd i s) = alarms s"
  "runCompletes (started rnd i s) = runCompletes s"
  by (simp_all add: started_def setRandomBackground_def setBackgroundColor_def
        generateRandomColor_def alarms_def runCompletes_def)

lemma startTracking_in_range:
  "i < length (projects s) \<Longrightarrow> startTracking rnd (int i) s = Inr (started rnd i s)"
  by (auto simp: startTracking_def at_index_def started_def)

lemma engineStart_positive:
  assumes "i < length (projects s)" "positiveDurations (projects s)"
  shows "engineStart rnd (int i) s = Inr (started rnd i s)"
proof -
  have "duration (projects s ! i) \<noteq> Num 0"
    using positive_nth [OF assms(2) assms(1)] by (rule num_gt_nonzero)
  then have "settled (started rnd i s)"
    by (simp add: settled_def started_fields)
  then show ?thesis
    using assms(1) by (simp add: engineStart_def andRender_def startTracking_in_range afterRender_settled)
qed

section \<open>The example states are reachable\<close>

lemma parseInt_examples:
  "parseInt ''1'' = Num 1" "parseInt ''2'' = Num 2" "parseInt ''0'' = Num 0"
  "parseInt ''10'' = Num 10" "parseInt ''200000000000000'' = Num 200000000000000"
  by (simp_all add: parseInt_def isWhiteSpace_def startsWith_def isDigitOf_def digitValue_def
        digitsValue_def Let_def small_numbers)

lemma reachable_planned: "reachable rnd planned"
proof -
  let ?s1 = "initial\<lparr>newProjectName := ''Draft''\<rparr>"
  let ?s2 = "?s1\<lparr>newProjectDuration := ''1''\<rparr>"
  let ?s3 = "initial\<lparr>projects := [\<lparr>project_id = ''a1'', name = ''Draft'', duration = Num 60\<rparr>]\<rparr>"
  let ?s4 = "?s3\<lparr>newProjectName := ''Review''\<rparr>"
  let ?s5 = "?s4\<lparr>newProjectDuration := ''2''\<rparr>"
  have i: "settled initial" "\<not> isRunning initial"
    by (simp_all add: settled_def initial_def)
  have 1: "step rnd (TypeName ''Draft'') initial = Inr ?s1"
    by (simp add: step_def andRender_def afterRender_settled settled_def initial_def)
  have 2: "step rnd (TypeDuration ''1'') ?s1 = Inr ?s2"
    by (simp add: step_def andRender_def afterRender_settled settled_def initial_def)
  have 3: "step rnd (ClickAdd ''a1'') ?s2 = Inr ?s3"
    by (simp add: step_def andRender_def afterRender_settled settled_def initial_def
          addProject_def parseInt_examples small_numbers Let_def)
  have 4: "step rnd (TypeName ''Review'') ?s3 = Inr ?s4"
    by (simp add: step_def andRender_def afterRender_settled settled_def initial_def)
  have 5: "step rnd (TypeDuration ''2'') ?s4 = Inr ?s5"
    by (simp add: step_def andRender_def afterRender_settled settled_def initial_def)
  have 6: "step rnd (ClickAdd ''b2'') ?s5 = Inr planned"
    by (simp add: step_def andRender_def afterRender_settled settled_def initial_def
          addProject_def parseInt_examples small_numbers Let_def planned_def draftReview_def)
  show ?thesis
    using reachable_initial [of rnd] 1 2 3 4 5 6 by (metis reachable_step)
qed

lemma reachable_tracking: "reachable noHue tracking"
proof -
  have "step noHue ClickStartAll planned = Inr tracking"
    by (simp add: step_def andRender_def afterRender_settled settled_def initial_def
          planned_def tracking_def draftReview_def startTracking_def at_index_def
          setRandomBackground_def setBackgroundColor_def generateRandomColor_def noHue_def)
  then show ?thesis using reachable_planned reachable_step by blast
qed

lemma reachable_reviewing: "reachable noHue reviewing"
proof -
  have "step noHue ClickNext tracking = Inr reviewing"
    by (simp add: step_def andRender_def afterRender_settled settled_def initial_def
          reviewing_def tracking_def draftReview_def nextProject_def nextRendered_def at_index_def
          setRandomBackground_def setBackgroundColor_def generateRandomColor_def noHue_def)
  then show ?thesis using reachable_tracking reachable_step by blast
qed

lemma example_facts:
  "isRunning tracking" "\<not> isPaused tracking" "indexInvariant tracking" "settled tracking"
  "fullscreenSynced tracking" "positiveDurations (projects tracking)"
  "currentProject tracking = 0" "length (projects tracking) = 2"
  "isRunning reviewing" "\<not> isPaused reviewing" "indexInvariant reviewing" "settled reviewing"
  "fullscreenSynced reviewing" "positiveDurations (projects reviewing)"
  "currentProject reviewing = 1" "length (projects reviewing) = 2"
  by (simp_all add: tracking_def reviewing_def initial_def draftReview_def indexInvariant_def
        settled_def fullscreenSynced_def positiveDurations_def)

lemma reachable_agesPlanned: "reachable rnd agesPlanned"
proof -
  let ?s1 = "initial\<lparr>newProjectName := ''Ages''\<rparr>"
  let ?s2 = "?s1\<lparr>newProjectDuration := ''200000000000000''\<rparr>"
  have 1: "step rnd (TypeName ''Ages'') initial = Inr ?s1"
    by (simp add: step_def andRender_def afterRender_settled settled_def initial_def)
  have 2: "step rnd (TypeDuration ''200000000000000'') ?s1 = Inr ?s2"
    by (simp add: step_def andRender_def afterRender_settled settled_def initial_def)
  have 3: "step rnd (ClickAdd ''c3'') ?s2 = Inr agesPlanned"
    by (simp add: step_def andRender_def afterRender_settled settled_def initial_def
          addProject_def parseInt_examples round64_ages Let_def agesPlanned_def ages_def)
  show ?thesis
    using reachable_initial [of rnd] 1 2 3 by (metis reachable_step)
qed

section \<open>The run to completion\<close>

lemma ticks_fixed: "tick rnd s = Inr s \<Longrightarrow> ticks rnd n s = Inr s"
  by (induction n) simp_all

lemma ages_stuck: "tick rnd (started rnd 0 agesPlanned) = Inr (started rnd 0 agesPlanned)"
proof -
  let ?s = "started rnd 0 agesPlanned"
  have t: "timeLeft ?s = Num 12000000000000000"
    by (simp add: started_fields agesPlanned_def ages_def)
  then have "num_sub (timeLeft ?s) (Num 1) = timeLeft ?s"
    by (simp add: round64_stuck)
  then have i: "intervalCallback ?s = ?s"
    by (simp add: intervalCallback_def)
  have "settled ?s" using t by (simp add: settled_def)
  then have "afterRender rnd ?s = Inr ?s" by (rule afterRender_settled)
  then show ?thesis
    using i t by (simp add: tick_def timerArmed_def started_fields)
qed

text \<open>
  C1. Over every sequence of positive durations the property fails. The form accepts
  200000000000000 minutes, which \<open>addProject\<close> stores as 12000000000000000 seconds;
  from there \<open>prev - 1\<close> rounds back to \<open>prev\<close>, so a tick leaves the started run as
  it is and no number of ticks ends it or plays an alarm.
\<close>

theorem run_to_completion_counterexample:
  "reachable noHue agesPlanned \<and>
   0 < length (projects agesPlanned) \<and> positiveDurations (projects agesPlanned) \<and>
   totalSeconds (drop 0 (projects agesPlanned)) = 12000000000000000 \<and>
   engineStart noHue 0 agesPlanned = Inr (started noHue 0 agesPlanned) \<and>
   ticks noHue 12000000000000000 (started noHue 0 agesPlanned) =
     Inr (started noHue 0 agesPlanned) \<and>
   engineState (started noHue 0 agesPlanned) = Running \<and>
   alarms (started noHue 0 agesPlanned) = alarms agesPlanned"
proof -
  have l: "0 < length (projects agesPlanned)"
    by (simp add: agesPlanned_def ages_def)
  have p: "positiveDurations (projects agesPlanned)"
    by (simp add: agesPlanned_def ages_def positiveDurations_def)
  have t: "totalSeconds (drop 0 (projects agesPlanned)) = 12000000000000000"
    by (simp add: agesPlanned_def ages_def totalSeconds_def)
  have s: "engineStart noHue (int 0) agesPlanned = Inr (started noHue 0 agesPlanned)"
    by (rule engineStart_positive [OF l p])
  have k: "ticks noHue 12000000000000000 (started noHue 0 agesPlanned) =
      Inr (started noHue 0 agesPlanned)"
    by (rule ticks_fixed) (rule ages_stuck)
  have e: "engineState (started noHue 0 agesPlanned) = Running"
    by (simp add: engineState_def started_fields)
  have a: "alarms (started noHue 0 agesPlanned) = alarms agesPlanned"
    by (simp add: started_fields)
  from reachable_agesPlanned [of noHue] l p t s k e a show ?thesis by simp
qed

text \<open>
  C1, for durations the countdown is exact on. For a sequence of \<open>N \<ge> 1\<close> projects,
  each of a positive duration of at most \<open>2 ^ 53\<close> seconds, and a start index
  \<open>i < N\<close>: \<open>start\<close> followed by exactly as many ticks as the durations from \<open>i\<close> on add
  up to leaves the Engine idle, with one alarm for each of the \<open>N - i\<close> projects
  traversed and one run-complete signal; before the last of these ticks the run is
  still active and no run-complete signal has been given.
\<close>

theorem run_to_completion:
  assumes "i < length (projects s)" "positiveDurations (projects s)"
    "exactDurations (projects s)"
  shows "\<exists>s1 s2. engineStart rnd (int i) s = Inr s1 \<and>
           ticks rnd (totalSeconds (drop i (projects s))) s1 = Inr s2 \<and>
           engineState s2 = Idle \<and> currentProject s2 = - 1 \<and>
           alarms s2 = alarms s + (length (projects s) - i) \<and>
           runCompletes s2 = runCompletes s + 1 \<and>
           (\<forall>k < totalSeconds (drop i (projects s)).
              \<exists>s3. ticks rnd k s1 = Inr s3 \<and> isRunning s3 \<and> runCompletes s3 = runCompletes s)"
proof -
  let ?s1 = "started rnd i s"
  have st: "engineStart rnd (int i) s = Inr ?s1"
    by (rule engineStart_positive [OF assms(1,2)])
  have "\<exists>s2. ticks rnd (totalSeconds (drop i (projects ?s1))) ?s1 = Inr s2 \<and>
           \<not> isRunning s2 \<and> currentProject s2 = - 1 \<and>
           alarms s2 = alarms ?s1 + (length (projects ?s1) - i) \<and>
           runCompletes s2 = runCompletes ?s1 + 1"
    by (rule run_from) (use assms in \<open>simp_all add: started_fields\<close>)
  then obtain s2 where s2: "ticks rnd (totalSeconds (drop i (projects s))) ?s1 = Inr s2"
    "\<not> isRunning s2" "currentProject s2 = - 1"
    "alarms s2 = alarms s + (length (projects s) - i)"
    "runCompletes s2 = runCompletes s + 1"
    by (auto simp: started_fields)
  have pre: "\<exists>s3. ticks rnd k ?s1 = Inr s3 \<and> isRunning s3 \<and> runCompletes s3 = runCompletes s"
    if "k < totalSeconds (drop i (projects s))" for k
  proof -
    have "\<exists>s3. ticks rnd k ?s1 = Inr s3 \<and> isRunning s3 \<and> runCompletes s3 = runCompletes ?s1"
      by (rule run_prefix [where i = i]) (use assms that in \<open>simp_all add: started_fields\<close>)
    then show ?thesis by (simp add: started_fields)
  qed
  have "engineState s2 = Idle" using s2(2) by (simp add: engineState_def)
  with st s2 pre show ?thesis by blast
qed

theorem run_to_completion_witness:
  "0 < length (projects planned) \<and> positiveDurations (projects planned) \<and>
   exactDurations (projects planned) \<and>
   (\<exists>s1 s2. engineStart noHue 0 planned = Inr s1 \<and>
      ticks noHue 180 s1 = Inr s2 \<and> engineState s2 = Idle \<and> alarms s2 = 2 \<and> runCompletes s2 = 1)"
proof -
  have h1: "0 < length (projects planned)"
    by (simp add: planned_def draftReview_def)
  have h2: "positiveDurations (projects planned)"
    by (simp add: planned_def draftReview_def positiveDurations_def)
  have h3: "exactDurations (projects planned)"
    by (simp add: planned_def draftReview_def exactDurations_def exactLimit_def)
  have t: "totalSeconds (drop 0 (projects planned)) = 180"
    by (simp add: planned_def draftReview_def totalSeconds_def)
  have a: "alarms planned = 0" "runCompletes planned = 0" "length (projects planned) = 2"
    by (simp_all add: planned_def initial_def alarms_def runCompletes_def draftReview_def)
  from run_to_completion [OF h1 h2 h3, of noHue] show ?thesis
    using h1 h2 h3 unfolding t a by auto
qed

section \<open>Invariants of the reachable states\<close>

lemma timerEffect_at_zero:
  assumes "isRunning s" "timeLeft s = Num 0" "0 \<le> currentProject s"
  shows "timerEffect rnd s =
           Inr (if currentProject s < int (length (projects s)) - 1
                then advanced rnd s else completed s)"
proof -
  have z: "s\<lparr>timeLeft := Num 0\<rparr> = s" using assms(2) by simp
  show ?thesis
    using assms
    by (simp add: timerEffect_def at_index_def advanced_def completed_def Let_def z)
qed

lemma advanced_invariant:
  "isRunning s \<Longrightarrow> 0 \<le> currentProject s \<Longrightarrow>
   currentProject s < int (length (projects s)) - 1 \<Longrightarrow> indexInvariant (advanced rnd s)"
  by (simp add: indexInvariant_def advanced_fields)

lemma completed_invariant: "indexInvariant (completed s)"
  by (simp add: indexInvariant_def completed_fields)

lemma advanced_synced: "fullscreenSynced (advanced rnd s) = fullscreenSynced s"
  by (simp add: fullscreenSynced_def advanced_def setRandomBackground_def
        setBackgroundColor_def playAlarm_def)

lemma completed_synced: "fullscreenSynced s \<Longrightarrow> fullscreenSynced (completed s)"
  by (simp add: fullscreenSynced_def completed_def setBackgroundColor_def playAlarm_def
        toggleFullscreen_def Let_def)

lemma afterRender_invariant:
  "indexInvariant s \<Longrightarrow>
   \<exists>s'. afterRender rnd s = Inr s' \<and> indexInvariant s' \<and> settled s' \<and>
        projects s' = projects s \<and> (fullscreenSynced s \<longrightarrow> fullscreenSynced s')"
proof (induction rnd s rule: afterRender.induct)
  case (1 rnd s)
  show ?case
  proof (cases "isRunning s \<and> timeLeft s = Num 0")
    case False
    then have "afterRender rnd s = Inr s"
      by (simp add: afterRender_settled settled_def)
    with False "1.prems" show ?thesis by (simp add: settled_def)
  next
    case True
    then have cp: "0 \<le> currentProject s" "currentProject s < int (length (projects s))"
      using "1.prems" by (simp_all add: indexInvariant_def)
    let ?n = "if currentProject s < int (length (projects s)) - 1
              then advanced rnd s else completed s"
    have e: "timerEffect rnd s = Inr ?n"
      using timerEffect_at_zero [of s rnd] True cp by simp
    have inv: "indexInvariant ?n"
      using True cp by (simp add: advanced_invariant completed_invariant)
    from "1.IH" [OF True e inv]
    obtain s' where s': "afterRender rnd ?n = Inr s'" "indexInvariant s'" "settled s'"
      "projects s' = projects ?n" "fullscreenSynced ?n \<longrightarrow> fullscreenSynced s'"
      by blast
    have unf: "afterRender rnd s = afterRender rnd ?n"
      by (subst afterRender.simps) (use True e in simp)
    have p: "projects ?n = projects s"
      by (simp add: advanced_fields completed_fields)
    have f: "fullscreenSynced s \<longrightarrow> fullscreenSynced ?n"
      by (simp add: advanced_synced completed_synced)
    show ?thesis using unf s' p f by auto
  qed
qed

lemma startTracking_invariant:
  "indexInvariant s \<Longrightarrow> startTracking rnd k s = Inr s' \<Longrightarrow> indexInvariant s'"
  by (auto simp: startTracking_def at_index_def indexInvariant_def setRandomBackground_def
        setBackgroundColor_def split: if_splits option.splits)

lemma startTracking_synced:
  "fullscreenSynced s \<Longrightarrow> startTracking rnd k s = Inr s' \<Longrightarrow> fullscreenSynced s'"
  by (auto simp: startTracking_def fullscreenSynced_def setRandomBackground_def
        setBackgroundColor_def split: if_splits option.splits)

lemma togglePause_invariant: "indexInvariant (togglePause s) = indexInvariant s"
  by (simp add: togglePause_def indexInvariant_def)

lemma returnToPlanning_invariant: "indexInvariant (returnToPlanning s)"
  by (simp add: returnToPlanning_def indexInvariant_def setBackgroundColor_def
        toggleFullscreen_def Let_def)

lemma returnToPlanning_synced: "fullscreenSynced s \<Longrightarrow> fullscreenSynced (returnToPlanning s)"
  by (simp add: returnToPlanning_def fullscreenSynced_def setBackgroundColor_def
        toggleFullscreen_def Let_def)

lemma intervalCallback_invariant: "indexInvariant (intervalCallback s) = indexInvariant s"
  by (simp add: intervalCallback_def indexInvariant_def)

lemma previousProject_ok:
  assumes "indexInvariant s" "previousRendered s"
  shows "\<exists>s'. previousProject rnd s = Inr s' \<and> indexInvariant s' \<and>
           currentProject s' = currentProject s - 1 \<and>
           timeLeft s' = duration (projects s ! nat (currentProject s - 1)) \<and>
           effects s' = effects s @ [BackgroundSet (Hsl (rnd (draws s) mod 360))] \<and>
           projects s' = projects s \<and> isRunning s' \<and> isPaused s' = isPaused s \<and>
           fullscreenSynced s' = fullscreenSynced s"
  using assms
  by (simp add: previousProject_def previousRendered_def indexInvariant_def at_index_def
        setRandomBackground_def setBackgroundColor_def generateRandomColor_def
        fullscreenSynced_def)

lemma nextProject_ok:
  assumes "indexInvariant s" "nextRendered s"
  shows "\<exists>s'. nextProject rnd s = Inr s' \<and> indexInvariant s' \<and>
           currentProject s' = currentProject s + 1 \<and>
           timeLeft s' = duration (projects s ! nat (currentProject s + 1)) \<and>
           effects s' = effects s @ [BackgroundSet (Hsl (rnd (draws s) mod 360))] \<and>
           projects s' = projects s \<and> isRunning s' \<and> isPaused s' = isPaused s \<and>
           fullscreenSynced s' = fullscreenSynced s"
  using assms
  by (simp add: nextProject_def nextRendered_def indexInvariant_def at_index_def
        setRandomBackground_def setBackgroundColor_def generateRandomColor_def
        fullscreenSynced_def)

lemma handle_invariant:
  assumes "indexInvariant s" "fullscreenSynced s" "available s a"
  shows "\<exists>s'. handle rnd a s = Inr s' \<and> indexInvariant s' \<and> fullscreenSynced s'"
proof (cases a)
  case (ClickPlay i)
  then have "i < length (projects s)" using assms(3) by simp
  then have "startTracking rnd (int i) s = Inr (started rnd i s)"
    by (rule startTracking_in_range)
  then show ?thesis
    using ClickPlay assms startTracking_invariant startTracking_synced by fastforce
next
  case ClickStartAll
  then have "0 < length (projects s)" using assms(3) by simp
  then have "startTracking rnd (int 0) s = Inr (started rnd 0 s)"
    by (rule startTracking_in_range)
  then show ?thesis
    using ClickStartAll assms startTracking_invariant [of s rnd 0] startTracking_synced [of s rnd 0]
    by fastforce
next
  case ClickPrevious
  then show ?thesis using previousProject_ok [of s rnd] assms by auto
next
  case ClickNext
  then show ?thesis using nextProject_ok [of s rnd] assms by auto
next
  case ClickReturn
  then show ?thesis using assms by (simp add: returnToPlanning_invariant returnToPlanning_synced)
qed (use assms in \<open>auto simp: indexInvariant_def fullscreenSynced_def addProject_def
      deleteProject_def startEditing_def saveEdit_def toggleFullscreen_def togglePause_def
      intervalCallback_def handleFullscreenChange_def Let_def\<close>)

lemma step_invariant:
  assumes "indexInvariant s" "fullscreenSynced s" "settled s"
  shows "\<exists>s'. step rnd a s = Inr s' \<and> indexInvariant s' \<and> fullscreenSynced s' \<and> settled s'"
proof (cases "available s a")
  case False
  then show ?thesis using assms by (simp add: step_def)
next
  case True
  obtain s1 where s1: "handle rnd a s = Inr s1" "indexInvariant s1" "fullscreenSynced s1"
    using handle_invariant [OF assms(1,2) True] by blast
  obtain s' where "afterRender rnd s1 = Inr s'" "indexInvariant s'" "settled s'"
    "fullscreenSynced s1 \<longrightarrow> fullscreenSynced s'"
    using afterRender_invariant [OF s1(2)] by blast
  then show ?thesis using True s1 by (simp add: step_def andRender_def)
qed

lemma reachable_invariants:
  "reachable rnd s \<Longrightarrow> indexInvariant s \<and> fullscreenSynced s \<and> settled s"
proof (induction rule: reachable.induct)
  case reachable_initial
  then show ?case by (simp add: initial_def indexInvariant_def fullscreenSynced_def settled_def)
next
  case (reachable_step s a s')
  then show ?case using step_invariant [of s rnd a] by auto
qed

section \<open>The index invariant\<close>

lemma engineStart_invariant:
  assumes "indexInvariant s"
  shows "engineStart rnd k s = Inr s' \<Longrightarrow> indexInvariant s'"
    and "0 \<le> k \<Longrightarrow> k < int (length (projects s)) \<Longrightarrow>
         \<exists>s'. engineStart rnd k s = Inr s' \<and> indexInvariant s'"
proof -
  show "indexInvariant s'" if r: "engineStart rnd k s = Inr s'"
  proof -
    obtain s1 where s1: "startTracking rnd k s = Inr s1" "afterRender rnd s1 = Inr s'"
      using r by (auto simp: engineStart_def andRender_def split: sum.splits)
    have "indexInvariant s1" using startTracking_invariant [OF assms s1(1)] .
    then show ?thesis using afterRender_invariant [of s1 rnd] s1(2) by auto
  qed
  show "\<exists>s'. engineStart rnd k s = Inr s' \<and> indexInvariant s'"
    if "0 \<le> k" "k < int (length (projects s))"
  proof -
    have "nat k < length (projects s)" using that by simp
    then have s1: "startTracking rnd (int (nat k)) s = Inr (started rnd (nat k) s)"
      by (rule startTracking_in_range)
    have "indexInvariant (started rnd (nat k) s)"
      using startTracking_invariant [OF assms s1] .
    then show ?thesis
      using afterRender_invariant [of "started rnd (nat k) s" rnd] s1 that
      by (auto simp: engineStart_def andRender_def)
  qed
qed

lemma tick_invariant:
  "indexInvariant s \<Longrightarrow> \<exists>s'. tick rnd s = Inr s' \<and> indexInvariant s'"
  using afterRender_invariant [of "intervalCallback s" rnd]
  by (auto simp: tick_def intervalCallback_invariant)

lemma engineTogglePause_invariant:
  "indexInvariant s \<Longrightarrow> \<exists>s'. engineTogglePause rnd s = Inr s' \<and> indexInvariant s'"
  using afterRender_invariant [of "togglePause s" rnd]
  by (auto simp: engineTogglePause_def togglePause_invariant)

lemma engineExit_invariant:
  "\<exists>s'. engineExit rnd s = Inr s' \<and> indexInvariant s'"
  using afterRender_invariant [of "returnToPlanning s" rnd]
  by (auto simp: engineExit_def returnToPlanning_invariant)

lemma engineNavigate_invariant:
  assumes "indexInvariant s"
  shows "\<exists>s'. engineNavigate rnd d s = Inr s' \<and> indexInvariant s'"
proof (cases d)
  case Backward
  show ?thesis
  proof (cases "previousRendered s")
    case True
    obtain s1 where "previousProject rnd s = Inr s1" "indexInvariant s1"
      using previousProject_ok [OF assms True] by blast
    then show ?thesis
      using afterRender_invariant [of s1 rnd] Backward True
      by (auto simp: engineNavigate_def andRender_def)
  next
    case False
    then show ?thesis using Backward assms by (simp add: engineNavigate_def)
  qed
next
  case Forward
  show ?thesis
  proof (cases "nextRendered s")
    case True
    obtain s1 where "nextProject rnd s = Inr s1" "indexInvariant s1"
      using nextProject_ok [OF assms True] by blast
    then show ?thesis
      using afterRender_invariant [of s1 rnd] Forward True
      by (auto simp: engineNavigate_def andRender_def)
  next
    case False
    then show ?thesis using Forward assms by (simp add: engineNavigate_def)
  qed
qed

text \<open>
  C3. In every reachable state in which a run is active the current index lies in
  \<open>0 .. length - 1\<close>; and each Engine operation (start, tick, togglePause, navigate,
  exit) applied to a state with this property returns a state with it, without an
  error.
\<close>

theorem index_invariant_preserved:
  "(reachable rnd s \<and> isRunning s \<longrightarrow>
      0 \<le> currentProject s \<and> currentProject s < int (length (projects s))) \<and>
   (indexInvariant s \<longrightarrow>
      (\<forall>k s'. engineStart rnd k s = Inr s' \<longrightarrow> indexInvariant s') \<and>
      (\<forall>k. 0 \<le> k \<and> k < int (length (projects s)) \<longrightarrow>
         (\<exists>s'. engineStart rnd k s = Inr s' \<and> indexInvariant s')) \<and>
      (\<exists>s'. tick rnd s = Inr s' \<and> indexInvariant s') \<and>
      (\<exists>s'. engineTogglePause rnd s = Inr s' \<and> indexInvariant s') \<and>
      (\<forall>d. \<exists>s'. engineNavigate rnd d s = Inr s' \<and> indexInvariant s') \<and>
      (\<exists>s'. engineExit rnd s = Inr s' \<and> indexInvariant s'))"
proof -
  have "0 \<le> currentProject s \<and> currentProject s < int (length (projects s))"
    if "reachable rnd s" "isRunning s"
    using reachable_invariants [OF that(1)] that(2) by (simp add: indexInvariant_def)
  moreover have "indexInvariant s'" if "indexInvariant s" "engineStart rnd k s = Inr s'" for k s'
    using engineStart_invariant(1) [OF that] .
  moreover have "\<exists>s'. engineStart rnd k s = Inr s' \<and> indexInvariant s'"
    if "indexInvariant s" "0 \<le> k \<and> k < int (length (projects s))" for k
    using engineStart_invariant(2) [OF that(1)] that(2) by blast
  ultimately show ?thesis
    using tick_invariant [of s rnd] engineTogglePause_invariant [of s rnd]
      engineNavigate_invariant [of s rnd] engineExit_invariant [of rnd s]
    by blast
qed

theorem index_invariant_preserved_witness:
  "reachable noHue reviewing \<and> isRunning reviewing \<and> indexInvariant reviewing \<and>
   currentProject reviewing = 1 \<and> length (projects reviewing) = 2 \<and>
   (\<exists>s'. tick noHue reviewing = Inr s' \<and> indexInvariant s') \<and>
   (\<exists>s'. engineNavigate noHue Backward reviewing = Inr s' \<and> indexInvariant s') \<and>
   (\<exists>s'. engineStart noHue 1 reviewing = Inr s' \<and> indexInvariant s')"
  using index_invariant_preserved [of noHue reviewing] reachable_reviewing
  by (simp add: example_facts)

section \<open>Navigation\<close>

lemma positive_settles:
  assumes "positiveDurations (projects s)" "0 \<le> i" "i < int (length (projects s))"
    "timeLeft s' = duration (projects s ! nat i)"
  shows "settled s'"
proof -
  have "nat i < length (projects s)" using assms(2,3) by simp
  then have "duration (projects s ! nat i) \<noteq> Num 0"
    using positive_nth [OF assms(1)] num_gt_nonzero by blast
  then show ?thesis using assms(4) by (simp add: settled_def)
qed

lemma engineNavigate_positive:
  assumes "indexInvariant s" "positiveDurations (projects s)"
  shows "engineNavigate rnd d s = navigate rnd d s"
proof (cases d)
  case Backward
  show ?thesis
  proof (cases "previousRendered s")
    case True
    obtain s1 where s1: "previousProject rnd s = Inr s1"
      "timeLeft s1 = duration (projects s ! nat (currentProject s - 1))"
      using previousProject_ok [OF assms(1) True] by blast
    have "settled s1"
      by (rule positive_settles [OF assms(2) _ _ s1(2)])
         (use True assms(1) in \<open>simp_all add: previousRendered_def indexInvariant_def\<close>)
    then show ?thesis
      using Backward True s1(1)
      by (simp add: engineNavigate_def navigate_def andRender_def afterRender_settled)
  next
    case False
    then show ?thesis using Backward by (simp add: engineNavigate_def navigate_def)
  qed
next
  case Forward
  show ?thesis
  proof (cases "nextRendered s")
    case True
    obtain s1 where s1: "nextProject rnd s = Inr s1"
      "timeLeft s1 = duration (projects s ! nat (currentProject s + 1))"
      using nextProject_ok [OF assms(1) True] by blast
    have "settled s1"
      by (rule positive_settles [OF assms(2) _ _ s1(2)])
         (use True assms(1) in \<open>simp_all add: nextRendered_def indexInvariant_def\<close>)
    then show ?thesis
      using Forward True s1(1)
      by (simp add: engineNavigate_def navigate_def andRender_def afterRender_settled)
  next
    case False
    then show ?thesis using Forward by (simp add: engineNavigate_def navigate_def)
  qed
qed

text \<open>
  C4. In an active run, a press on backward at the first project and a press on forward
  at the last project change nothing. Every other press moves the current index by one,
  sets the remaining time to the duration of the project now current, and makes one
  project-changed signal (a random background); the projects, the running flag and the
  paused flag stay as they were. Where all durations are positive the render that
  follows changes nothing more.
\<close>

theorem navigate_within_bounds:
  assumes "isRunning s" "indexInvariant s"
  shows
    "(currentProject s = 0 \<longrightarrow> navigate rnd Backward s = Inr s) \<and>
     (currentProject s = int (length (projects s)) - 1 \<longrightarrow> navigate rnd Forward s = Inr s) \<and>
     (0 < currentProject s \<longrightarrow>
        (\<exists>s'. navigate rnd Backward s = Inr s' \<and>
           currentProject s' = currentProject s - 1 \<and>
           timeLeft s' = duration (projects s ! nat (currentProject s - 1)) \<and>
           effects s' = effects s @ [BackgroundSet (Hsl (rnd (draws s) mod 360))] \<and>
           projects s' = projects s \<and> isRunning s' \<and> isPaused s' = isPaused s)) \<and>
     (currentProject s < int (length (projects s)) - 1 \<longrightarrow>
        (\<exists>s'. navigate rnd Forward s = Inr s' \<and>
           currentProject s' = currentProject s + 1 \<and>
           timeLeft s' = duration (projects s ! nat (currentProject s + 1)) \<and>
           effects s' = effects s @ [BackgroundSet (Hsl (rnd (draws s) mod 360))] \<and>
           projects s' = projects s \<and> isRunning s' \<and> isPaused s' = isPaused s)) \<and>
     (positiveDurations (projects s) \<longrightarrow>
        (\<forall>d. engineNavigate rnd d s = navigate rnd d s))"
proof -
  have a: "navigate rnd Backward s = Inr s" if "currentProject s = 0"
    using that by (simp add: navigate_def previousRendered_def)
  have b: "navigate rnd Forward s = Inr s" if "currentProject s = int (length (projects s)) - 1"
    using that by (simp add: navigate_def nextRendered_def)
  have c: "\<exists>s'. navigate rnd Backward s = Inr s' \<and>
           currentProject s' = currentProject s - 1 \<and>
           timeLeft s' = duration (projects s ! nat (currentProject s - 1)) \<and>
           effects s' = effects s @ [BackgroundSet (Hsl (rnd (draws s) mod 360))] \<and>
           projects s' = projects s \<and> isRunning s' \<and> isPaused s' = isPaused s"
    if "0 < currentProject s"
  proof -
    have r: "previousRendered s" using that assms(1) by (simp add: previousRendered_def)
    show ?thesis
      using previousProject_ok [OF assms(2) r, of rnd] r by (auto simp: navigate_def)
  qed
  have d: "\<exists>s'. navigate rnd Forward s = Inr s' \<and>
           currentProject s' = currentProject s + 1 \<and>
           timeLeft s' = duration (projects s ! nat (currentProject s + 1)) \<and>
           effects s' = effects s @ [BackgroundSet (Hsl (rnd (draws s) mod 360))] \<and>
           projects s' = projects s \<and> isRunning s' \<and> isPaused s' = isPaused s"
    if "currentProject s < int (length (projects s)) - 1"
  proof -
    have r: "nextRendered s" using that assms(1) by (simp add: nextRendered_def)
    show ?thesis
      using nextProject_ok [OF assms(2) r, of rnd] r by (auto simp: navigate_def)
  qed
  have e: "engineNavigate rnd d s = navigate rnd d s" if "positiveDurations (projects s)" for d
    using engineNavigate_positive [OF assms(2) that] .
  show ?thesis using a b c d e by blast
qed

theorem navigate_within_bounds_witness:
  "isRunning reviewing \<and> indexInvariant reviewing \<and>
   currentProject reviewing = int (length (projects reviewing)) - 1 \<and>
   0 < currentProject reviewing \<and> positiveDurations (projects reviewing) \<and>
   navigate noHue Forward reviewing = Inr reviewing \<and>
   (\<exists>s'. navigate noHue Backward reviewing = Inr s' \<and> currentProject s' = 0 \<and>
      timeLeft s' = Num 60 \<and> engineNavigate noHue Backward reviewing = Inr s')"
proof -
  have n: "duration (projects reviewing ! 0) = Num 60"
    by (simp add: reviewing_def draftReview_def)
  show ?thesis
    using navigate_within_bounds [of reviewing noHue] n
    by (auto simp: example_facts)
qed

section \<open>The alarm\<close>

lemma alarms_append_background:
  "effects s' = effects s @ [BackgroundSet c] \<Longrightarrow> alarms s' = alarms s"
  by (simp add: alarms_def)

lemma navigate_alarms:
  assumes "indexInvariant s"
  shows "\<exists>s'. navigate rnd d s = Inr s' \<and> alarms s' = alarms s"
proof (cases d)
  case Backward
  show ?thesis
  proof (cases "previousRendered s")
    case True
    then show ?thesis
      using previousProject_ok [OF assms True, of rnd] Backward alarms_append_background
      by (fastforce simp: navigate_def)
  next
    case False
    then show ?thesis using Backward by (simp add: navigate_def)
  qed
next
  case Forward
  show ?thesis
  proof (cases "nextRendered s")
    case True
    then show ?thesis
      using nextProject_ok [OF assms True, of rnd] Forward alarms_append_background
      by (fastforce simp: navigate_def)
  next
    case False
    then show ?thesis using Forward by (simp add: navigate_def)
  qed
qed

lemma engineTogglePause_settled:
  "settled s \<Longrightarrow> engineTogglePause rnd s = Inr (togglePause s)"
  by (simp add: engineTogglePause_def afterRender_settled settled_def togglePause_def)

lemma engineExit_result: "engineExit rnd s = Inr (returnToPlanning s)"
  by (simp add: engineExit_def afterRender_settled settled_def returnToPlanning_def
        setBackgroundColor_def toggleFullscreen_def Let_def)

lemma returnToPlanning_alarms: "alarms (returnToPlanning s) = alarms s"
  by (simp add: alarms_def returnToPlanning_def setBackgroundColor_def toggleFullscreen_def
        Let_def)

lemma tick_alarms:
  assumes "indexInvariant s" "isRunning s" "positiveDurations (projects s)"
  shows "\<exists>s'. tick rnd s = Inr s' \<and>
           alarms s' = (if timerArmed s \<and> timeLeft s = Num 1 then alarms s + 1 else alarms s)"
proof (cases "timerArmed s")
  case False
  then show ?thesis by (simp add: tick_def)
next
  case True
  then have np: "\<not> isPaused s" and g: "num_gt (timeLeft s) (Num 0)"
    by (simp_all add: timerArmed_def)
  have cp: "0 \<le> currentProject s" "currentProject s < int (length (projects s))"
    using assms(1,2) by (simp_all add: indexInvariant_def)
  show ?thesis
  proof (cases "timeLeft s = Num 1")
    case False
    then have "tick rnd s = Inr (intervalCallback s)"
      using tick_no_expiry [OF assms(2) np g, of rnd] by simp
    moreover have "alarms (intervalCallback s) = alarms s"
      by (simp add: alarms_def intervalCallback_def)
    ultimately show ?thesis using False by simp
  next
    case one: True
    show ?thesis
    proof (cases "currentProject s < int (length (projects s)) - 1")
      case True
      have "nat (currentProject s + 1) < length (projects s)" using True cp by simp
      then have "num_gt (duration (projects s ! nat (currentProject s + 1))) (Num 0)"
        using positive_nth [OF assms(3)] by blast
      then have "tick rnd s = Inr (advanced rnd s)"
        using last_tick_advance [OF assms(2) np one cp(1) True, of rnd] by simp
      moreover have "alarms (advanced rnd s) = alarms s + 1"
        using advanced_fields(6) [of rnd s] by simp
      ultimately show ?thesis using \<open>timerArmed s\<close> one by simp
    next
      case False
      have "tick rnd s = Inr (completed s)"
        using last_tick_complete [OF assms(2) np one False, of rnd] by simp
      moreover have "alarms (completed s) = alarms s + 1"
        using completed_fields(4) [of s] by simp
      ultimately show ?thesis using \<open>timerArmed s\<close> one by simp
    qed
  qed
qed

text \<open>
  C5. In a reachable state with an active run over projects of positive duration, a
  navigation (with the render that follows it) plays no alarm, and neither does
  togglePause or exit. A tick plays the alarm, once, exactly when the timer is armed
  and one second remains, that is when the tick takes the remaining time to zero.
\<close>

theorem alarm_only_on_expiry:
  assumes "reachable rnd s" "isRunning s" "positiveDurations (projects s)"
  shows
    "(\<forall>d. \<exists>s'. engineNavigate rnd d s = Inr s' \<and> alarms s' = alarms s) \<and>
     (\<exists>s'. engineTogglePause rnd s = Inr s' \<and> alarms s' = alarms s) \<and>
     (\<exists>s'. engineExit rnd s = Inr s' \<and> alarms s' = alarms s) \<and>
     (\<exists>s'. tick rnd s = Inr s' \<and>
        alarms s' = (if timerArmed s \<and> timeLeft s = Num 1 then alarms s + 1 else alarms s))"
proof -
  have inv: "indexInvariant s" "settled s"
    using reachable_invariants [OF assms(1)] by simp_all
  have "\<exists>s'. engineNavigate rnd d s = Inr s' \<and> alarms s' = alarms s" for d
    using navigate_alarms [OF inv(1), of rnd d] engineNavigate_positive [OF inv(1) assms(3), of rnd d]
    by simp
  moreover have "\<exists>s'. engineTogglePause rnd s = Inr s' \<and> alarms s' = alarms s"
    using engineTogglePause_settled [OF inv(2), of rnd] by (simp add: alarms_def togglePause_def)
  moreover have "\<exists>s'. engineExit rnd s = Inr s' \<and> alarms s' = alarms s"
    by (simp add: engineExit_result returnToPlanning_alarms)
  ultimately show ?thesis
    using tick_alarms [OF inv(1) assms(2,3), of rnd] by blast
qed

theorem alarm_only_on_expiry_witness:
  "reachable noHue reviewing \<and> isRunning reviewing \<and> positiveDurations (projects reviewing) \<and>
   (\<exists>s'. engineNavigate noHue Backward reviewing = Inr s' \<and> alarms s' = alarms reviewing) \<and>
   (\<exists>s'. tick noHue reviewing = Inr s' \<and> alarms s' = alarms reviewing)"
proof -
  have t: "timeLeft reviewing \<noteq> Num 1"
    by (simp add: reviewing_def)
  show ?thesis
    using alarm_only_on_expiry [OF reachable_reviewing example_facts(9) example_facts(14)] t
      reachable_reviewing
    by (simp add: example_facts)
qed

section \<open>Pause, exit and start\<close>

lemma ticks_unarmed: "\<not> timerArmed s \<Longrightarrow> ticks rnd n s = Inr s"
  by (induction n) (simp_all add: tick_def)

lemma started_after_togglePause: "started rnd i (togglePause s) = started rnd i s"
  by (simp add: started_def togglePause_def setRandomBackground_def setBackgroundColor_def
        generateRandomColor_def)

lemma press_pause_active:
  assumes "isRunning s" "settled s"
  shows "step rnd ClickPause s = Inr (togglePause s)"
proof -
  have "settled (togglePause s)" using assms(2) by (simp add: settled_def togglePause_def)
  then show ?thesis
    using assms(1) by (simp add: step_def andRender_def afterRender_settled)
qed

text \<open>
  C6. The pause button, the one caller of \<open>togglePause\<close>, is rendered only while a run
  is active. Pressed there it negates the paused flag and nothing else: a running Engine
  becomes paused and a paused one running, and the render that follows adds nothing. In
  the idle Engine there is no pause button, so the operation changes nothing. The handler
  has no test of its own: on an idle Engine it would leave the Engine idle and negate
  only the flag, which \<open>startTracking\<close> overwrites, so that a start gives the same
  state with and without it.
\<close>

theorem togglePause_flips_flag:
  "togglePause s = s\<lparr>isPaused := \<not> isPaused s\<rparr> \<and>
   engineState (togglePause s) =
     (case engineState s of Idle \<Rightarrow> Idle | Running \<Rightarrow> Paused | Paused \<Rightarrow> Running) \<and>
   (settled s \<longrightarrow> engineTogglePause rnd s = Inr (togglePause s)) \<and>
   available s ClickPause = isRunning s \<and>
   (\<not> isRunning s \<longrightarrow> step rnd ClickPause s = Inr s) \<and>
   (isRunning s \<and> settled s \<longrightarrow> step rnd ClickPause s = Inr (togglePause s)) \<and>
   (\<forall>i. i < length (projects s) \<longrightarrow>
      startTracking rnd (int i) (togglePause s) = startTracking rnd (int i) s)"
proof -
  have a: "togglePause s = s\<lparr>isPaused := \<not> isPaused s\<rparr>"
    by (simp add: togglePause_def)
  have b: "engineState (togglePause s) =
      (case engineState s of Idle \<Rightarrow> Idle | Running \<Rightarrow> Paused | Paused \<Rightarrow> Running)"
    by (simp add: togglePause_def engineState_def)
  have c: "settled s \<longrightarrow> engineTogglePause rnd s = Inr (togglePause s)"
    by (simp add: engineTogglePause_settled)
  have d: "available s ClickPause = isRunning s" by simp
  have e: "\<not> isRunning s \<longrightarrow> step rnd ClickPause s = Inr s"
    by (simp add: step_def)
  have f: "isRunning s \<and> settled s \<longrightarrow> step rnd ClickPause s = Inr (togglePause s)"
    using press_pause_active [of s rnd] by simp
  have g: "startTracking rnd (int i) (togglePause s) = startTracking rnd (int i) s"
    if "i < length (projects s)" for i
  proof -
    have "i < length (projects (togglePause s))" using that by (simp add: togglePause_def)
    then have "startTracking rnd (int i) (togglePause s) = Inr (started rnd i (togglePause s))"
      by (rule startTracking_in_range)
    then show ?thesis
      using startTracking_in_range [OF that, of rnd] by (simp add: started_after_togglePause)
  qed
  from a b c d e f g show ?thesis by blast
qed

theorem togglePause_flips_flag_witness:
  "settled tracking \<and> engineState tracking = Running \<and>
   engineTogglePause noHue tracking = Inr (togglePause tracking) \<and>
   engineState (togglePause tracking) = Paused \<and>
   step noHue ClickPause tracking = Inr (togglePause tracking) \<and>
   \<not> isRunning initial \<and> step noHue ClickPause initial = Inr initial \<and>
   engineState (togglePause initial) = Idle"
proof -
  have i: "\<not> isRunning initial" "engineState initial = Idle"
    by (simp_all add: initial_def engineState_def)
  have r: "engineState tracking = Running"
    by (simp add: engineState_def example_facts)
  have a: "engineState (togglePause tracking) =
      (case engineState tracking of Idle \<Rightarrow> Idle | Running \<Rightarrow> Paused | Paused \<Rightarrow> Running)"
    "settled tracking \<longrightarrow> engineTogglePause noHue tracking = Inr (togglePause tracking)"
    "isRunning tracking \<and> settled tracking \<longrightarrow>
       step noHue ClickPause tracking = Inr (togglePause tracking)"
    using togglePause_flips_flag [of tracking noHue] by blast+
  have b: "engineState (togglePause initial) =
      (case engineState initial of Idle \<Rightarrow> Idle | Running \<Rightarrow> Paused | Paused \<Rightarrow> Running)"
    "\<not> isRunning initial \<longrightarrow> step noHue ClickPause initial = Inr initial"
    using togglePause_flips_flag [of initial noHue] by blast+
  show ?thesis
    using a b i r by (simp add: example_facts)
qed

text \<open>
  C7. Once togglePause has taken an active run from running to paused, any number of
  ticks leaves the state, and so the remaining time, as it is; a second togglePause
  gives back the state from before the pause, in which ticks count down again. The
  state before the pause is one in which the timer effect has nothing left to do, as
  every reachable state is.
\<close>

theorem paused_run_holds_remaining:
  assumes "isRunning s" "\<not> isPaused s" "settled s"
  shows
    "engineTogglePause rnd s = Inr (togglePause s) \<and>
     engineState (togglePause s) = Paused \<and>
     timeLeft (togglePause s) = timeLeft s \<and>
     (\<forall>n. ticks rnd n (togglePause s) = Inr (togglePause s)) \<and>
     engineTogglePause rnd (togglePause s) = Inr s"
proof -
  have p: "isPaused (togglePause s)" "isRunning (togglePause s)"
    "timeLeft (togglePause s) = timeLeft s"
    using assms by (simp_all add: togglePause_def)
  have "\<not> timerArmed (togglePause s)" using p by (simp add: timerArmed_def)
  then have t: "ticks rnd n (togglePause s) = Inr (togglePause s)" for n
    by (rule ticks_unarmed)
  have "settled (togglePause s)" using assms(3) by (simp add: settled_def togglePause_def)
  then have "engineTogglePause rnd (togglePause s) = Inr (togglePause (togglePause s))"
    by (rule engineTogglePause_settled)
  moreover have "togglePause (togglePause s) = s" by (simp add: togglePause_def)
  ultimately show ?thesis
    using engineTogglePause_settled [OF assms(3), of rnd] p t
    by (simp add: engineState_def)
qed

theorem paused_run_holds_remaining_witness:
  "isRunning tracking \<and> \<not> isPaused tracking \<and> settled tracking \<and>
   engineTogglePause noHue tracking = Inr (togglePause tracking) \<and>
   timeLeft (togglePause tracking) = Num 60 \<and>
   ticks noHue 100 (togglePause tracking) = Inr (togglePause tracking)"
proof -
  have t: "timeLeft tracking = Num 60" by (simp add: tracking_def)
  show ?thesis
    using paused_run_holds_remaining [OF example_facts(1) example_facts(2) example_facts(4), of noHue] t
    by (simp add: example_facts)
qed

text \<open>
  C9. From every state with an active run, whatever its index and remaining time, exit
  leaves the Engine idle with the index cleared and the background white; it logs the
  reset of the background and plays no alarm. The remaining time is discarded: no tick
  counts it down, and a later start gives the same state whatever was left in
  \<open>timeLeft\<close>. Where the full screen flag mirrors the document, as it does in every
  reachable state, exit also leaves full screen: the log ends with the reset of the
  background, followed by the call that leaves full screen if the page was in full
  screen.
\<close>

theorem exit_returns_to_idle:
  assumes "isRunning s"
  shows
    "engineExit rnd s = Inr (returnToPlanning s) \<and>
     engineState (returnToPlanning s) = Idle \<and>
     currentProject (returnToPlanning s) = - 1 \<and>
     backgroundColor (returnToPlanning s) = White \<and>
     alarms (returnToPlanning s) = alarms s \<and>
     runCompletes (returnToPlanning s) = runCompletes s + 1 \<and>
     (\<forall>n. ticks rnd n (returnToPlanning s) = Inr (returnToPlanning s)) \<and>
     (\<forall>t k. projects s \<noteq> [] \<longrightarrow>
        startTracking rnd k ((returnToPlanning s)\<lparr>timeLeft := t\<rparr>) =
        startTracking rnd k (returnToPlanning s)) \<and>
     (fullscreenSynced s \<longrightarrow>
        \<not> isFullscreen (returnToPlanning s) \<and> \<not> fullscreenElement (returnToPlanning s) \<and>
        effects (returnToPlanning s) =
          effects s @ BackgroundSet White # (if isFullscreen s then [FullscreenExit] else []))"
proof -
  have f: "isRunning (returnToPlanning s) = False"
    "currentProject (returnToPlanning s) = - 1"
    "backgroundColor (returnToPlanning s) = White"
    "projects (returnToPlanning s) = projects s"
    by (simp_all add: returnToPlanning_def setBackgroundColor_def toggleFullscreen_def Let_def)
  have g: "\<not> isFullscreen (returnToPlanning s) \<and> \<not> fullscreenElement (returnToPlanning s) \<and>
      effects (returnToPlanning s) =
        effects s @ BackgroundSet White # (if isFullscreen s then [FullscreenExit] else [])"
    if "fullscreenSynced s"
    using that
    by (simp add: returnToPlanning_def setBackgroundColor_def toggleFullscreen_def
          fullscreenSynced_def Let_def)
  have "\<not> timerArmed (returnToPlanning s)" using f(1) by (simp add: timerArmed_def)
  then have t: "ticks rnd n (returnToPlanning s) = Inr (returnToPlanning s)" for n
    by (rule ticks_unarmed)
  have r: "runCompletes (returnToPlanning s) = runCompletes s + 1"
    by (simp add: runCompletes_def returnToPlanning_def setBackgroundColor_def
          toggleFullscreen_def Let_def)
  have st: "startTracking rnd k ((returnToPlanning s)\<lparr>timeLeft := t\<rparr>) =
        startTracking rnd k (returnToPlanning s)" if "projects s \<noteq> []" for t k
    using that f(4)
    by (simp add: startTracking_def setRandomBackground_def setBackgroundColor_def
          generateRandomColor_def split: option.splits)
  have e: "engineState (returnToPlanning s) = Idle" using f(1) by (simp add: engineState_def)
  show ?thesis
    using f(2,3) e t r st g by (simp add: engineExit_result returnToPlanning_alarms)
qed

theorem exit_returns_to_idle_witness:
  "isRunning reviewing \<and> fullscreenSynced reviewing \<and>
   engineExit noHue reviewing = Inr (returnToPlanning reviewing) \<and>
   engineState (returnToPlanning reviewing) = Idle \<and>
   alarms (returnToPlanning reviewing) = alarms reviewing \<and>
   ticks noHue 7 (returnToPlanning reviewing) = Inr (returnToPlanning reviewing) \<and>
   \<not> isFullscreen (returnToPlanning reviewing) \<and>
   \<not> fullscreenElement (returnToPlanning reviewing)"
  using exit_returns_to_idle [OF example_facts(9), of noHue]
  by (simp add: example_facts)

text \<open>
  C10. \<open>startTracking\<close> tests only whether the list of projects is empty, and then
  does nothing. On a list that is not empty it reads \<open>projects[startIndex].duration\<close>:
  for an index in \<open>0 .. length - 1\<close> the read is in bounds and the run starts with that
  duration; for any other index the read is of \<open>undefined\<close> and throws.
\<close>

theorem startTracking_index_guard:
  "(projects s = [] \<longrightarrow> startTracking rnd k s = Inr s) \<and>
   (projects s \<noteq> [] \<and> 0 \<le> k \<and> k < int (length (projects s)) \<longrightarrow>
      startTracking rnd k s = Inr (started rnd (nat k) s) \<and>
      timeLeft (started rnd (nat k) s) = duration (projects s ! nat k) \<and>
      currentProject (started rnd (nat k) s) = k) \<and>
   (projects s \<noteq> [] \<and> \<not> (0 \<le> k \<and> k < int (length (projects s))) \<longrightarrow>
      startTracking rnd k s = Inl TypeError)"
proof -
  have a: "startTracking rnd k s = Inr s" if "projects s = []"
    using that by (simp add: startTracking_def)
  have b: "startTracking rnd k s = Inr (started rnd (nat k) s) \<and>
      timeLeft (started rnd (nat k) s) = duration (projects s ! nat k) \<and>
      currentProject (started rnd (nat k) s) = k"
    if "0 \<le> k" "k < int (length (projects s))"
    using startTracking_in_range [of "nat k" s rnd] that by (simp add: started_fields)
  have c: "startTracking rnd k s = Inl TypeError"
    if "projects s \<noteq> []" "\<not> (0 \<le> k \<and> k < int (length (projects s)))"
    using that by (simp add: startTracking_def at_index_def)
  show ?thesis using a b c by blast
qed

theorem startTracking_index_guard_witness:
  "projects initial = [] \<and> startTracking noHue 0 initial = Inr initial \<and>
   projects planned \<noteq> [] \<and> (1::int) < int (length (projects planned)) \<and>
   startTracking noHue 1 planned = Inr (started noHue 1 planned) \<and>
   timeLeft (started noHue 1 planned) = Num 120 \<and>
   \<not> (2::int) < int (length (projects planned)) \<and>
   startTracking noHue 2 planned = Inl TypeError \<and>
   startTracking noHue (- 1) planned = Inl TypeError"
proof -
  have p: "projects initial = []" "projects planned \<noteq> []" "length (projects planned) = 2"
    "duration (projects planned ! 1) = Num 120"
    by (simp_all add: initial_def planned_def draftReview_def)
  show ?thesis
    using startTracking_index_guard [of initial noHue 0]
      startTracking_index_guard [of planned noHue 1]
      startTracking_index_guard [of planned noHue 2]
      startTracking_index_guard [of planned noHue "- 1"] p
    by simp
qed

section \<open>The Registry\<close>

lemma add_rejects_empty:
  "nm = [] \<or> minutes = [] \<Longrightarrow> projects (add newId nm minutes s) = projects s"
  by (auto simp: add_def addProject_def)

lemma add_appends:
  "nm \<noteq> [] \<Longrightarrow> minutes \<noteq> [] \<Longrightarrow>
   projects (add newId nm minutes s) =
     projects s @ [\<lparr>project_id = newId, name = nm,
                    duration = num_mul (parseInt minutes) (Num 60)\<rparr>]"
  by (simp add: add_def addProject_def Let_def)

lemma edit_rejects_empty:
  "nm = [] \<or> minutes = [] \<Longrightarrow> projects (edit ident nm minutes s) = projects s"
  by (auto simp: edit_def saveEdit_def)

lemma edit_unknown_id:
  "ident \<notin> project_id ` set (projects s) \<Longrightarrow> projects (edit ident nm minutes s) = projects s"
proof -
  assume a: "ident \<notin> project_id ` set (projects s)"
  have "map (\<lambda>p. if project_id p = ident then f p else p) (projects s) = projects s" for f
    by (rule map_idI) (use a in auto)
  then show ?thesis by (simp add: edit_def saveEdit_def)
qed

lemma edit_in_place:
  assumes "nm \<noteq> []" "minutes \<noteq> []"
  shows "length (projects (edit ident nm minutes s)) = length (projects s)"
    and "j < length (projects s) \<Longrightarrow>
         projects (edit ident nm minutes s) ! j =
           (if project_id (projects s ! j) = ident
            then (projects s ! j)\<lparr>name := nm, duration := num_mul (parseInt minutes) (Num 60)\<rparr>
            else projects s ! j)"
    and "map project_id (projects (edit ident nm minutes s)) = map project_id (projects s)"
  using assms by (simp_all add: edit_def saveEdit_def comp_def)

text \<open>
  C2. The guard of \<open>addProject\<close> tests the two form fields for the empty text only.
  With the name \<open>X\<close> and the duration text \<open>0\<close> in the empty registry it appends a
  project of zero seconds; with an empty name it appends nothing.
\<close>

theorem add_zero_minutes_appends:
  "projects (add ''k3x'' ''X'' ''0'' initial) =
     [\<lparr>project_id = ''k3x'', name = ''X'', duration = Num 0\<rparr>] \<and>
   projects (add ''k3x'' [] ''10'' initial) = []"
  by (simp add: add_def addProject_def initial_def parseInt_examples small_numbers Let_def)

text \<open>
  C8. \<open>saveEdit\<close> has the same guard. With the duration text \<open>0\<close> it overwrites the
  duration of the project \<open>a1\<close> by zero seconds, in place, where the validation of the
  specification asks for no change; with the text \<open>2\<close> it stores two minutes, at the
  same position and with the same identifier, and leaves the other project as it is.
\<close>

theorem edit_zero_minutes_overwrites:
  "projects (edit ''a1'' ''Plan'' ''0'' planned) =
     [\<lparr>project_id = ''a1'', name = ''Plan'', duration = Num 0\<rparr>,
      \<lparr>project_id = ''b2'', name = ''Review'', duration = Num 120\<rparr>] \<and>
   projects (edit ''a1'' ''Plan'' ''2'' planned) =
     [\<lparr>project_id = ''a1'', name = ''Plan'', duration = Num 120\<rparr>,
      \<lparr>project_id = ''b2'', name = ''Review'', duration = Num 120\<rparr>]"
  by (simp add: edit_def saveEdit_def planned_def initial_def draftReview_def
        parseInt_examples small_numbers)

end
